theory Spec2Isabelle
  imports Main "HOL-Library.Sublist"
begin

section \<open>Values, errors and Python primitives\<close>

text \<open>
  The pipeline works on deserialised JSON.  A Python \<^verbatim>\<open>dict\<close> keeps its insertion order,
  which the flattening engine iterates, so an object is an association list; its keys are
  unique in every dict that \<^verbatim>\<open>json.loads\<close> returns.
\<close>

datatype json =
    JNull
  | JBool bool
  | JNum int
  | JStr string
  | JList "json list"
  | JObj "(string \<times> json) list"

text \<open>
  Exceptions are values.  \<open>KeyError k\<close> is a subscript with a missing key, \<open>IndexError\<close>
  is \<^verbatim>\<open>[...][0]\<close> on an empty list, \<open>TypeError\<close> stands for the exception Python raises
  when a value that is not a dict (or not iterable) is used as one, \<open>RecursionError\<close> is
  the interpreter's recursion limit, and \<open>IOError m\<close> is any failure of a remote service
  with message \<open>m\<close>.
\<close>

datatype error =
    KeyError string
  | IndexError
  | TypeError
  | RecursionError
  | IOError string

text \<open>
  \<^verbatim>\<open>str(e)\<close> as used in the log messages.  The wording the interpreter gives to a
  TypeError is not reproduced.
\<close>

fun str_of_error :: "error \<Rightarrow> string" where
  "str_of_error (KeyError k) = [CHR 39] @ k @ [CHR 39]"
| "str_of_error IndexError = ''list index out of range''"
| "str_of_error TypeError = ''TypeError''"
| "str_of_error RecursionError = ''maximum recursion depth exceeded''"
| "str_of_error (IOError m) = m"

text \<open>\<^verbatim>\<open>str(n)\<close> for a natural number and for an integer, in decimal.\<close>

fun str_of_nat :: "nat \<Rightarrow> string" where
  "str_of_nat n =
     (if n < 10 then [char_of (48 + n)]
      else str_of_nat (n div 10) @ [char_of (48 + n mod 10)])"

declare str_of_nat.simps [simp del]

definition str_of_int :: "int \<Rightarrow> string" where
  "str_of_int i = (if i < 0 then CHR ''-'' # str_of_nat (nat (- i)) else str_of_nat (nat i))"

section \<open>LoggingManager (modules/custom\_logger.py)\<close>

text \<open>
  One row of \<^verbatim>\<open>logging_rows\<close>.  The fields \<^verbatim>\<open>date\<close> and \<^verbatim>\<open>time\<close> are the two
  \<^verbatim>\<open>strftime\<close> renderings of \<^verbatim>\<open>datetime.now()\<close>; the model receives them as the
  \<open>timestamp\<close> argument.
\<close>

record log_entry =
  log_client :: string
  log_date :: string
  log_time :: string
  log_operation :: string
  log_kind :: string
  log_text :: string

type_synonym timestamp = "string \<times> string"

text \<open>
  The state \<^verbatim>\<open>write_log\<close> acts on: the buffer of the LoggingManager and what has been
  printed to standard output so far.
\<close>

record LoggingManager =
  logging_rows :: "log_entry list"
  printed :: "log_entry list"

definition LoggingManager_init :: LoggingManager where
  "LoggingManager_init = \<lparr>logging_rows = [], printed = []\<rparr>"

definition make_entry :: "timestamp \<Rightarrow> string \<Rightarrow> string \<Rightarrow> string \<Rightarrow> string \<Rightarrow> log_entry" where
  "make_entry now client operation kind txt =
     \<lparr>log_client = client, log_date = fst now, log_time = snd now,
      log_operation = operation, log_kind = kind, log_text = txt\<rparr>"

definition write_log ::
  "timestamp \<Rightarrow> string \<Rightarrow> string \<Rightarrow> string \<Rightarrow> string \<Rightarrow> LoggingManager \<Rightarrow> LoggingManager" where
  "write_log now client operation kind txt lm =
     (let log_entry = make_entry now client operation kind txt;
          out = (if kind \<noteq> ''DEBUG'' then printed lm @ [log_entry] else printed lm)
      in \<lparr>logging_rows = logging_rows lm @ [log_entry], printed = out\<rparr>)"

text \<open>A sequence of calls, each given by its clock reading and its four arguments.\<close>

type_synonym log_call = "timestamp \<times> string \<times> string \<times> string \<times> string"

fun entry_of_call :: "log_call \<Rightarrow> log_entry" where
  "entry_of_call (now, client, operation, kind, txt) = make_entry now client operation kind txt"

fun write_log_call :: "LoggingManager \<Rightarrow> log_call \<Rightarrow> LoggingManager" where
  "write_log_call lm (now, client, operation, kind, txt) = write_log now client operation kind txt lm"

definition write_logs :: "log_call list \<Rightarrow> LoggingManager \<Rightarrow> LoggingManager" where
  "write_logs calls lm = foldl write_log_call lm calls"

section \<open>Python primitives on JSON values\<close>

text \<open>\<^verbatim>\<open>obj[key]\<close>: a missing key raises KeyError, a value that is not a dict raises TypeError.\<close>

fun subscript :: "json \<Rightarrow> string \<Rightarrow> error + json" where
  "subscript (JObj kvs) k = (case map_of kvs k of Some v \<Rightarrow> Inr v | None \<Rightarrow> Inl (KeyError k))"
| "subscript _ k = Inl TypeError"

text \<open>\<^verbatim>\<open>obj.get(key, default)\<close>; only a dict has the method.\<close>

fun py_get :: "json \<Rightarrow> string \<Rightarrow> json \<Rightarrow> error + json" where
  "py_get (JObj kvs) k d = Inr (case map_of kvs k of Some v \<Rightarrow> v | None \<Rightarrow> d)"
| "py_get _ k d = Inl TypeError"

text \<open>\<^verbatim>\<open>obj.items()\<close>.\<close>

fun py_items :: "json \<Rightarrow> error + (string \<times> json) list" where
  "py_items (JObj kvs) = Inr kvs"
| "py_items _ = Inl TypeError"

text \<open>
  \<^verbatim>\<open>for x in v\<close>: a list yields its elements, a dict its keys, a string its characters;
  anything else is not iterable.
\<close>

fun py_iter :: "json \<Rightarrow> error + json list" where
  "py_iter (JList xs) = Inr xs"
| "py_iter (JObj kvs) = Inr (map (\<lambda>kv. JStr (fst kv)) kvs)"
| "py_iter (JStr s) = Inr (map (\<lambda>c. JStr [c]) s)"
| "py_iter _ = Inl TypeError"

text \<open>\<^verbatim>\<open>isinstance(v, list)\<close> and \<^verbatim>\<open>isinstance(v, str)\<close>.\<close>

fun is_list :: "json \<Rightarrow> bool" where
  "is_list (JList xs) = True"
| "is_list _ = False"

fun is_str :: "json \<Rightarrow> bool" where
  "is_str (JStr s) = True"
| "is_str _ = False"

text \<open>\<^verbatim>\<open>sub in s\<close> on strings: \<open>sub\<close> occurs in \<open>s\<close> as a contiguous block.\<close>

fun str_contains :: "string \<Rightarrow> string \<Rightarrow> bool" where
  "str_contains sub [] = (sub = [])"
| "str_contains sub (c # cs) = (prefix sub (c # cs) \<or> str_contains sub cs)"

text \<open>\<^verbatim>\<open>s.rstrip('s')\<close>: every trailing character of the set \<open>{s}\<close> is removed.\<close>

definition rstrip_s :: "string \<Rightarrow> string" where
  "rstrip_s key = rev (dropWhile (\<lambda>c. c = CHR ''s'') (rev key))"

section \<open>Flattening engine (PowerBIDataTransform/transform\_powerbi.py)\<close>

text \<open>
  The expression \<^verbatim>\<open>user.get([x for x in user if 'UserAccessRight' in x][0])\<close>, which occurs
  in \<^verbatim>\<open>fill_user_table\<close> and in \<^verbatim>\<open>process_workspace_users\<close>.  On a value that is not a dict the
  source raises as well (a string yields single characters, none of which contains the
  word, so the index fails; a list has no \<^verbatim>\<open>get\<close>; a number is not iterable); the model
  gives \<open>TypeError\<close> for all of these.
\<close>

fun access_right :: "json \<Rightarrow> error + json" where
  "access_right (JObj kvs) =
     (case filter (str_contains ''UserAccessRight'') (map fst kvs) of
        [] \<Rightarrow> Inl IndexError
      | k # _ \<Rightarrow> Inr (case map_of kvs k of Some v \<Rightarrow> v | None \<Rightarrow> JNull))"
| "access_right _ = Inl TypeError"

text \<open>
  The lists the engine appends to are Python lists of rows; a row is itself a Python list
  (an access tuple, a content edge) or a dict (a user, a dimension row), so a row is a
  \<open>json\<close> value.  A function that appends to a list it was passed takes that list and
  returns the extended one; the caller stores it back into the variable it passed.
\<close>

fun fill_user_table_loop :: "json list \<Rightarrow> string \<Rightarrow> json \<Rightarrow> json list \<Rightarrow> error + json list" where
  "fill_user_table_loop user_access object_type object_id [] = Inr user_access"
| "fill_user_table_loop user_access object_type object_id (user # rest) =
     (case access_right user of
        Inl e \<Rightarrow> Inl e
      | Inr ar \<Rightarrow>
          (case subscript user ''graphId'' of
             Inl e \<Rightarrow> Inl e
           | Inr g \<Rightarrow>
               fill_user_table_loop (user_access @ [JList [g, object_id, ar, JStr object_type]])
                 object_type object_id rest))"

definition fill_user_table :: "json list \<Rightarrow> string \<Rightarrow> json \<Rightarrow> json \<Rightarrow> error + json list" where
  "fill_user_table user_access object_type object_id list_of_users =
     (case py_iter list_of_users of
        Inl e \<Rightarrow> Inl e
      | Inr us \<Rightarrow> fill_user_table_loop user_access object_type object_id us)"

text \<open>\<^verbatim>\<open>try: object_data['id']  except: object_data['objectId']\<close>.\<close>

definition element_id_of :: "json \<Rightarrow> error + json" where
  "element_id_of object_data =
     (case subscript object_data ''id'' of
        Inr v \<Rightarrow> Inr v
      | Inl _ \<Rightarrow> subscript object_data ''objectId'')"

text \<open>
  \<^verbatim>\<open>try: all_data[t].append(d)  except: all_data[t] = [d]\<close> on a dict in insertion order.
\<close>

fun all_data_append :: "(string \<times> json list) list \<Rightarrow> string \<Rightarrow> json \<Rightarrow> (string \<times> json list) list" where
  "all_data_append [] t d = [(t, [d])]"
| "all_data_append ((k, ds) # rest) t d =
     (if k = t then (k, ds @ [d]) # rest else (k, ds) # all_data_append rest t d)"

text \<open>
  The second parameter is named \<^verbatim>\<open>users\<close> in the source and is the list handed to
  \<^verbatim>\<open>fill_user_table\<close> as its \<^verbatim>\<open>user_access\<close> argument.
\<close>

definition fill_dimension_table ::
  "json list \<Rightarrow> json list \<Rightarrow> (string \<times> json list) list \<Rightarrow> json \<Rightarrow> string \<Rightarrow> json
     \<Rightarrow> error + (json list \<times> json list \<times> (string \<times> json list) list)" where
  "fill_dimension_table workspace_content users all_data workspace_id object_type object_data =
     (case element_id_of object_data of
        Inl e \<Rightarrow> Inl e
      | Inr element_id \<Rightarrow>
     (case py_get object_data ''users'' (JList []) of
        Inl e \<Rightarrow> Inl e
      | Inr list_of_users \<Rightarrow>
     (case fill_user_table users object_type element_id list_of_users of
        Inl e \<Rightarrow> Inl e
      | Inr users' \<Rightarrow>
     (case py_items object_data of
        Inl e \<Rightarrow> Inl e
      | Inr kvs \<Rightarrow>
          Inr (workspace_content @ [JList [workspace_id, element_id, JStr object_type]],
               users',
               all_data_append all_data object_type (JObj (filter (\<lambda>kv. is_str (snd kv)) kvs)))))))"

fun process_workspace_users_loop ::
  "json \<Rightarrow> json list \<Rightarrow> json list \<Rightarrow> json list \<Rightarrow> error + (json list \<times> json list)" where
  "process_workspace_users_loop workspace_id user_access users [] = Inr (user_access, users)"
| "process_workspace_users_loop workspace_id user_access users (user # rest) =
     (case subscript user ''graphId'' of
        Inl e \<Rightarrow> Inl e
      | Inr g \<Rightarrow>
     (case py_get user ''emailAddress'' (JStr []) of
        Inl e \<Rightarrow> Inl e
      | Inr email \<Rightarrow>
     (case py_get user ''displayName'' (JStr []) of
        Inl e \<Rightarrow> Inl e
      | Inr display \<Rightarrow>
     (case access_right user of
        Inl e \<Rightarrow> Inl e
      | Inr ar \<Rightarrow>
          process_workspace_users_loop workspace_id
            (user_access @ [JList [g, workspace_id, ar, JStr ''workspace'']])
            (users @ [JObj [(''graphId'', g), (''emailAddress'', email), (''displayName'', display)]])
            rest))))"

definition process_workspace_users :: "json list \<Rightarrow> json list \<Rightarrow> json \<Rightarrow> error + (json list \<times> json list)" where
  "process_workspace_users user_access users workspace =
     (case subscript workspace ''id'' of
        Inl e \<Rightarrow> Inl e
      | Inr workspace_id \<Rightarrow>
     (case subscript workspace ''users'' of
        Inl e \<Rightarrow> Inl e
      | Inr us \<Rightarrow>
     (case py_iter us of
        Inl e \<Rightarrow> Inl e
      | Inr ulist \<Rightarrow> process_workspace_users_loop workspace_id user_access users ulist)))"

type_synonym collections = "json list \<times> json list \<times> (string \<times> json list) list"

text \<open>The loop \<^verbatim>\<open>for object_data in value\<close> of \<^verbatim>\<open>process_workspace_objects\<close>.\<close>

fun objects_loop :: "json \<Rightarrow> string \<Rightarrow> collections \<Rightarrow> json list \<Rightarrow> error + collections" where
  "objects_loop workspace_id key st [] = Inr st"
| "objects_loop workspace_id key (workspace_content, users, all_data) (object_data # rest) =
     (case fill_dimension_table workspace_content users all_data workspace_id (rstrip_s key) object_data of
        Inl e \<Rightarrow> Inl e
      | Inr st' \<Rightarrow> objects_loop workspace_id key st' rest)"

text \<open>The loop \<^verbatim>\<open>for key, value in workspace.items()\<close> of \<^verbatim>\<open>process_workspace_objects\<close>.\<close>

fun items_loop :: "json \<Rightarrow> collections \<Rightarrow> (string \<times> json) list \<Rightarrow> error + collections" where
  "items_loop workspace_id st [] = Inr st"
| "items_loop workspace_id st ((key, value) # rest) =
     (case value of
        JList objs \<Rightarrow>
          (if key = ''users'' then items_loop workspace_id st rest
           else (case objects_loop workspace_id key st objs of
                   Inl e \<Rightarrow> Inl e
                 | Inr st' \<Rightarrow> items_loop workspace_id st' rest))
      | _ \<Rightarrow> items_loop workspace_id st rest)"

definition process_workspace_objects ::
  "json list \<Rightarrow> json list \<Rightarrow> (string \<times> json list) list \<Rightarrow> json \<Rightarrow> error + collections" where
  "process_workspace_objects workspace_content users all_data workspace =
     (case subscript workspace ''id'' of
        Inl e \<Rightarrow> Inl e
      | Inr workspace_id \<Rightarrow>
     (case py_items workspace of
        Inl e \<Rightarrow> Inl e
      | Inr kvs \<Rightarrow> items_loop workspace_id (workspace_content, users, all_data) kvs))"

text \<open>
  The four collections of \<^verbatim>\<open>transform_powerbi_data\<close> (lines 73 to 76) and its two nested
  loops (lines 79 to 86).  At line 86 the variable \<^verbatim>\<open>users\<close> is passed as the second
  argument of \<^verbatim>\<open>process_workspace_objects\<close>, and what comes back is stored in \<^verbatim>\<open>users\<close>.
\<close>

record flat =
  user_access :: "json list"
  users :: "json list"
  workspace_content :: "json list"
  all_data :: "(string \<times> json list) list"

definition flat_init :: flat where
  "flat_init = \<lparr>user_access = [], users = [], workspace_content = [], all_data = []\<rparr>"

fun workspace_keys_loop :: "json \<Rightarrow> flat \<Rightarrow> (string \<times> json) list \<Rightarrow> error + flat" where
  "workspace_keys_loop workspace st [] = Inr st"
| "workspace_keys_loop workspace st ((key, value) # rest) =
     (if \<not> is_list value then workspace_keys_loop workspace st rest
      else if key = ''users'' then
        (case process_workspace_users (user_access st) (users st) workspace of
           Inl e \<Rightarrow> Inl e
         | Inr (ua, us) \<Rightarrow>
             workspace_keys_loop workspace (st\<lparr>user_access := ua, users := us\<rparr>) rest)
      else
        (case process_workspace_objects (workspace_content st) (users st) (all_data st) workspace of
           Inl e \<Rightarrow> Inl e
         | Inr (wc, us, ad) \<Rightarrow>
             workspace_keys_loop workspace
               (st\<lparr>workspace_content := wc, users := us, all_data := ad\<rparr>) rest))"

fun workspaces_loop :: "flat \<Rightarrow> json list \<Rightarrow> error + flat" where
  "workspaces_loop st [] = Inr st"
| "workspaces_loop st (workspace # rest) =
     (case py_items workspace of
        Inl e \<Rightarrow> Inl e
      | Inr kvs \<Rightarrow>
          (case workspace_keys_loop workspace st kvs of
             Inl e \<Rightarrow> Inl e
           | Inr st' \<Rightarrow> workspaces_loop st' rest))"

definition flatten :: "json \<Rightarrow> error + flat" where
  "flatten scan =
     (case py_iter scan of
        Inl e \<Rightarrow> Inl e
      | Inr ws \<Rightarrow> workspaces_loop flat_init ws)"

section \<open>Deduplication and shaping (transform\_powerbi.py, lines 88 to 96)\<close>

text \<open>
  \<^verbatim>\<open>DataFrame.drop_duplicates()\<close> keeps the first occurrence of every row.  A table built by
  \<^verbatim>\<open>pd.DataFrame(rows)\<close> is represented by the list of rows it is built from, and two rows
  are the same row when they are equal values.
\<close>

fun drop_duplicates :: "'a list \<Rightarrow> 'a list" where
  "drop_duplicates [] = []"
| "drop_duplicates (x # xs) = x # drop_duplicates (filter (\<lambda>y. y \<noteq> x) xs)"

text \<open>Assignment \<^verbatim>\<open>d[k] = v\<close> on a dict in insertion order.\<close>

fun dict_set :: "('k \<times> 'v) list \<Rightarrow> 'k \<Rightarrow> 'v \<Rightarrow> ('k \<times> 'v) list" where
  "dict_set [] k v = [(k, v)]"
| "dict_set ((k', v') # rest) k v =
     (if k' = k then (k, v) # rest else (k', v') # dict_set rest k v)"

text \<open>
  The dict literal \<^verbatim>\<open>output_data\<close>: five fixed entries, then one entry per object type
  (\<^verbatim>\<open>**{...}\<close>), a later key replacing an earlier equal one.  \<open>workspaces\<close> and
  \<open>activities\<close> are the two tables read from the raw store and passed through.
\<close>

definition output_data :: "json list \<Rightarrow> json list \<Rightarrow> flat \<Rightarrow> (string \<times> json list) list" where
  "output_data workspaces activities st =
     foldl (\<lambda>d kv. dict_set d (fst kv) (drop_duplicates (snd kv)))
       [(''users'', drop_duplicates (users st)),
        (''user_access'', drop_duplicates (user_access st)),
        (''workspaces'', workspaces),
        (''workspace_content'', workspace_content st),
        (''activities'', activities)]
       (all_data st)"

section \<open>The older flattening loop (transform.py, process\_single\_client, lines 76 to 91)\<close>

text \<open>
  \<^verbatim>\<open>fill_user_table\<close> and \<^verbatim>\<open>fill_dimension_table\<close> of transform.py are the functions above,
  line for line.  The loop differs: it passes the plural key itself as the object type,
  passes \<^verbatim>\<open>user_access\<close> to \<^verbatim>\<open>fill_dimension_table\<close>, and extends \<^verbatim>\<open>users\<close> by the raw
  workspace user records.
\<close>

fun legacy_objects_loop :: "json \<Rightarrow> string \<Rightarrow> flat \<Rightarrow> json list \<Rightarrow> error + flat" where
  "legacy_objects_loop workspace key st [] = Inr st"
| "legacy_objects_loop workspace key st (object # rest) =
     (case subscript workspace ''id'' of
        Inl e \<Rightarrow> Inl e
      | Inr workspace_id \<Rightarrow>
          (case fill_dimension_table (workspace_content st) (user_access st) (all_data st)
                  workspace_id key object of
             Inl e \<Rightarrow> Inl e
           | Inr (wc, ua, ad) \<Rightarrow>
               legacy_objects_loop workspace key
                 (st\<lparr>workspace_content := wc, user_access := ua, all_data := ad\<rparr>) rest))"

fun legacy_keys_loop :: "json \<Rightarrow> flat \<Rightarrow> (string \<times> json) list \<Rightarrow> error + flat" where
  "legacy_keys_loop workspace st [] = Inr st"
| "legacy_keys_loop workspace st ((key, value) # rest) =
     (case value of
        JList vs \<Rightarrow>
          (if key = ''users'' then
             (case subscript workspace ''id'' of
                Inl e \<Rightarrow> Inl e
              | Inr workspace_id \<Rightarrow>
                  (case fill_user_table (user_access st) ''workspace'' workspace_id value of
                     Inl e \<Rightarrow> Inl e
                   | Inr ua \<Rightarrow>
                       legacy_keys_loop workspace
                         (st\<lparr>user_access := ua, users := users st @ vs\<rparr>) rest))
           else
             (case legacy_objects_loop workspace key st vs of
                Inl e \<Rightarrow> Inl e
              | Inr st' \<Rightarrow> legacy_keys_loop workspace st' rest))
      | _ \<Rightarrow> legacy_keys_loop workspace st rest)"

fun legacy_workspaces_loop :: "flat \<Rightarrow> json list \<Rightarrow> error + flat" where
  "legacy_workspaces_loop st [] = Inr st"
| "legacy_workspaces_loop st (workspace # rest) =
     (case py_items workspace of
        Inl e \<Rightarrow> Inl e
      | Inr kvs \<Rightarrow>
          (case legacy_keys_loop workspace st kvs of
             Inl e \<Rightarrow> Inl e
           | Inr st' \<Rightarrow> legacy_workspaces_loop st' rest))"

definition process_single_client_flatten :: "json \<Rightarrow> error + flat" where
  "process_single_client_flatten workspace_content_data =
     (case py_iter workspace_content_data of
        Inl e \<Rightarrow> Inl e
      | Inr ws \<Rightarrow> legacy_workspaces_loop flat_init ws)"

section \<open>Curated-layer merge (load\_powerbi\_data/load\_powerbi.py)\<close>

text \<open>
  A pandas DataFrame: its columns, each with a label and a dtype, and its rows.  A label
  is a name or an integer (the tables built from lists of lists have the labels 0, 1, 2,
  ...).  A row gives each label its cell; a label without a cell in a row reads as NaN,
  which is \<open>None\<close> here.  The dtypes are the four that columns of JSON scalars have.  In a
  \<open>Float64\<close> column the number \<open>n\<close> stands for the float equal to it; the model has no
  fractions.
\<close>

datatype label = Name string | Pos nat

datatype dtype = Int64 | Float64 | Bool | Object

type_synonym row = "label \<Rightarrow> json option"

record DataFrame =
  columns :: "(label \<times> dtype) list"
  rows :: "row list"

definition labels :: "DataFrame \<Rightarrow> label list" where
  "labels df = map fst (columns df)"

text \<open>\<^verbatim>\<open>df.empty\<close>: some axis has length 0.\<close>

definition empty_df :: "DataFrame \<Rightarrow> bool" where
  "empty_df df = (columns df = [] \<or> rows df = [])"

fun str_of_label :: "label \<Rightarrow> string" where
  "str_of_label (Name n) = n"
| "str_of_label (Pos i) = str_of_nat i"

text \<open>\<^verbatim>\<open>df[c]\<close>: the cells of column \<open>c\<close>, one per row; KeyError when there is no such column.\<close>

definition getitem :: "DataFrame \<Rightarrow> label \<Rightarrow> error + json option list" where
  "getitem df c =
     (if c \<in> set (labels df) then Inr (map (\<lambda>r. r c) (rows df))
      else Inl (KeyError (str_of_label c)))"

text \<open>
  Equality of two cells as the membership test of pandas sees it: a Boolean is equal to
  the integer 0 or 1, and any other two cells are equal when they are the same value.
\<close>

fun cell_eq :: "json option \<Rightarrow> json option \<Rightarrow> bool" where
  "cell_eq (Some (JBool b)) (Some (JNum n)) = (n = (if b then 1 else 0))"
| "cell_eq (Some (JNum n)) (Some (JBool b)) = (n = (if b then 1 else 0))"
| "cell_eq a b = (a = b)"

text \<open>\<^verbatim>\<open>series.isin(values)\<close>, one boolean per cell.\<close>

definition isin :: "json option list \<Rightarrow> json option list \<Rightarrow> bool list" where
  "isin series vals = map (\<lambda>v. list_ex (cell_eq v) vals) series"

text \<open>
  \<^verbatim>\<open>df[keep]\<close> with a boolean series: the rows whose entry is true; columns and dtypes
  stay.
\<close>

definition select_rows :: "DataFrame \<Rightarrow> bool list \<Rightarrow> DataFrame" where
  "select_rows df keep = df\<lparr>rows := map fst (filter snd (zip (rows df) keep))\<rparr>"

text \<open>
  The float64 nearest to an integer, as an integer: the 53 leading bits are kept, the
  rest is rounded half to even.
\<close>

fun bit_length :: "nat \<Rightarrow> nat" where
  "bit_length n = (if n = 0 then 0 else Suc (bit_length (n div 2)))"

declare bit_length.simps [simp del]

definition to_float64 :: "int \<Rightarrow> int" where
  "to_float64 n =
     (let a = nat (abs n);
          e = bit_length a - 53;
          q = a div 2 ^ e;
          r = a mod 2 ^ e;
          q' = (if 2 ^ e < 2 * r \<or> (2 * r = 2 ^ e \<and> odd q) then q + 1 else q)
      in sgn n * int (q' * 2 ^ e))"

text \<open>\<^verbatim>\<open>astype\<close>: a cell converted to a numeric dtype.\<close>

fun cast :: "dtype \<Rightarrow> json option \<Rightarrow> json option" where
  "cast Float64 (Some (JNum n)) = Some (JNum (to_float64 n))"
| "cast Float64 (Some (JBool b)) = Some (JNum (if b then 1 else 0))"
| "cast Int64 (Some (JBool b)) = Some (JNum (if b then 1 else 0))"
| "cast d c = c"

text \<open>
  The dtype of a column of the concatenation, from its dtype in either table (\<open>None\<close>:
  the table has no such column, and its rows get NaN there).  Equal dtypes stay; object
  wins; integers with floats or with NaN become float64; Booleans with integers become
  integers (pandas before 2.0).
\<close>

fun common_dtype :: "dtype option \<Rightarrow> dtype option \<Rightarrow> dtype" where
  "common_dtype (Some a) (Some b) =
     (if a = b then a
      else if a = Object \<or> b = Object then Object
      else if a = Float64 \<or> b = Float64 then Float64
      else Int64)"
| "common_dtype (Some a) None = (if a = Int64 then Float64 else if a = Bool then Object else a)"
| "common_dtype None (Some b) = (if b = Int64 then Float64 else if b = Bool then Object else b)"
| "common_dtype None None = Object"

text \<open>
  A row of a table with the columns \<open>src\<close> put under the columns \<open>dst\<close>: a cell whose
  column changes dtype is converted, a column the row's table lacks reads NaN.
\<close>

definition reindex :: "(label \<times> dtype) list \<Rightarrow> (label \<times> dtype) list \<Rightarrow> row \<Rightarrow> row" where
  "reindex src dst r =
     (\<lambda>k. case map_of dst k of
            None \<Rightarrow> r k
          | Some d \<Rightarrow>
              (case map_of src k of
                 None \<Rightarrow> None
               | Some s \<Rightarrow> if s = d then r k else cast d (r k)))"

text \<open>
  \<^verbatim>\<open>pd.concat([a, b], ignore_index=True)\<close>: the rows of \<open>a\<close>, then those of \<open>b\<close>, under the
  columns of \<open>a\<close> followed by the columns of \<open>b\<close> that \<open>a\<close> lacks.
\<close>

definition concat_df :: "DataFrame \<Rightarrow> DataFrame \<Rightarrow> DataFrame" where
  "concat_df a b =
     (let cols =
            map (\<lambda>kd. (fst kd, common_dtype (Some (snd kd)) (map_of (columns b) (fst kd))))
              (columns a)
            @ map (\<lambda>kd. (fst kd, common_dtype None (Some (snd kd))))
                (filter (\<lambda>kd. fst kd \<notin> set (labels a)) (columns b))
      in \<lparr>columns = cols,
          rows = map (reindex (columns a) cols) (rows a)
                 @ map (reindex (columns b) cols) (rows b)\<rparr>)"

definition merge_new_rows :: "DataFrame \<Rightarrow> DataFrame \<Rightarrow> label \<Rightarrow> error + DataFrame" where
  "merge_new_rows current_df silver_df id_column =
     (if empty_df current_df then Inr silver_df
      else
        (case getitem silver_df id_column of
           Inl e \<Rightarrow> Inl e
         | Inr silver_ids \<Rightarrow>
             (case getitem current_df id_column of
                Inl e \<Rightarrow> Inl e
              | Inr current_ids \<Rightarrow>
                  (let new_rows = select_rows silver_df (map Not (isin silver_ids current_ids))
                   in Inr (concat_df current_df new_rows)))))"

section \<open>DataLakeWriter (modules/datalake\_writer.py, parquet methods)\<close>

text \<open>
  The storage service behind \<^verbatim>\<open>self.client\<close> is external.  Its two operations act on a
  state \<open>'w\<close> of the lake that the model leaves open, and either may fail with an
  exception; what they do is a parameter.  \<open>download_file w fs n\<close> is the table parsed
  from the file \<open>n\<close> of the file system \<open>fs\<close> (the download and \<^verbatim>\<open>pd.read_parquet\<close>),
  \<open>upload_file w df fs n\<close> the conversion of \<open>df\<close> to parquet and the creation of the file.
\<close>

record 'w DataLakeServiceClient =
  download_file :: "'w \<Rightarrow> string \<Rightarrow> string \<Rightarrow> (error + DataFrame) \<times> 'w"
  upload_file :: "'w \<Rightarrow> DataFrame \<Rightarrow> string \<Rightarrow> string \<Rightarrow> error option \<times> 'w"

text \<open>
  \<^verbatim>\<open>datetime.now()\<close> inside \<^verbatim>\<open>write_log\<close> is read from a clock; the reading for a call is
  indexed by the number of rows buffered before it.
\<close>

type_synonym clock = "nat \<Rightarrow> timestamp"

definition logger_write_log ::
  "clock \<Rightarrow> string \<Rightarrow> string \<Rightarrow> string \<Rightarrow> string \<Rightarrow> LoggingManager \<Rightarrow> LoggingManager" where
  "logger_write_log clk client operation kind txt lm =
     write_log (clk (length (logging_rows lm))) client operation kind txt lm"

text \<open>
  The writer holds the LoggingManager of the run (\<^verbatim>\<open>get_credentials\<close> gives the same
  object to both) and logs every read and write.  Its calls pass \<^verbatim>\<open>'DEBUG'\<close> or \<^verbatim>\<open>'ERROR'\<close>
  in the position of \<^verbatim>\<open>operation\<close> and \<^verbatim>\<open>'Read data'\<close> or \<^verbatim>\<open>'Write data'\<close> in the position of
  \<^verbatim>\<open>kind\<close>; the model keeps the arguments where the source puts them.
\<close>

definition read_parquet_data ::
  "'w DataLakeServiceClient \<Rightarrow> clock \<Rightarrow> string \<Rightarrow> string \<Rightarrow> 'w \<times> LoggingManager
     \<Rightarrow> (error + DataFrame) \<times> 'w \<times> LoggingManager" where
  "read_parquet_data service clk file_system file_name st =
     (case download_file service (fst st) file_system file_name of
        (Inr df, w) \<Rightarrow>
          (Inr df, w,
           logger_write_log clk ''datalake_writer'' ''DEBUG'' ''Read data''
             (''Parquet data read from '' @ file_name @ '' in '' @ file_system) (snd st))
      | (Inl e, w) \<Rightarrow>
          (Inl e, w,
           logger_write_log clk ''datalake_writer'' ''ERROR'' ''Read data''
             (''Error reading parquet data from '' @ file_name @ '': '' @ str_of_error e)
             (snd st)))"

definition write_parquet_data ::
  "'w DataLakeServiceClient \<Rightarrow> clock \<Rightarrow> DataFrame \<Rightarrow> string \<Rightarrow> string \<Rightarrow> 'w \<times> LoggingManager
     \<Rightarrow> error option \<times> 'w \<times> LoggingManager" where
  "write_parquet_data service clk df file_system file_name st =
     (case upload_file service (fst st) df file_system file_name of
        (None, w) \<Rightarrow>
          (None, w,
           logger_write_log clk ''datalake_writer'' ''DEBUG'' ''Write data''
             (''Parquet data written to '' @ file_name @ '' in '' @ file_system) (snd st))
      | (Some e, w) \<Rightarrow>
          (Some e, w,
           logger_write_log clk ''datalake_writer'' ''ERROR'' ''Write data''
             (''Error writing parquet data to '' @ file_name @ '': '' @ str_of_error e)
             (snd st)))"

section \<open>Silver-to-gold load (load\_powerbi\_data/load\_powerbi.py, load\_power\_bi\_data)\<close>

definition id_columns :: "(string \<times> label) list" where
  "id_columns =
     [(''users'', Name ''graphId''), (''activities'', Name ''Id''),
      (''user_access'', Pos 0), (''workspace_content'', Pos 0)]"

text \<open>The identity column of a table: \<^verbatim>\<open>id_columns.get(name, 'id')\<close>.\<close>

definition id_column_of :: "string \<Rightarrow> label" where
  "id_column_of name = (case map_of id_columns name of Some c \<Rightarrow> c | None \<Rightarrow> Name ''id'')"

definition all_tables :: "(string \<times> string list) list" where
  "all_tables =
     [(''dimensions'', [''users'', ''workspaces'', ''reports'', ''datasets'']),
      (''facts'', [''user_access'', ''workspace_content'', ''activities'', ''azure_spend''])]"

definition gold_path :: "string \<Rightarrow> string \<Rightarrow> string" where
  "gold_path kind name =
     kind @ ''/'' @ (if kind = ''dimensions'' then ''dim'' else ''fact'') @ ''_'' @ name"

text \<open>
  The inner \<^verbatim>\<open>try\<close> (lines 50 to 64): read the gold table and merge; on any exception log
  \<^verbatim>\<open>Creating new table\<close> at INFO and take the silver table.  The result is the table \<^verbatim>\<open>df\<close>.
\<close>

definition read_gold_and_merge ::
  "'w DataLakeServiceClient \<Rightarrow> clock \<Rightarrow> string \<Rightarrow> string \<Rightarrow> string \<Rightarrow> DataFrame \<Rightarrow> label
     \<Rightarrow> 'w \<times> LoggingManager \<Rightarrow> DataFrame \<times> 'w \<times> LoggingManager" where
  "read_gold_and_merge service clk client kind name dataframe id_column st =
     (case read_parquet_data service clk ''gold'' (gold_path kind name) st of
        (Inr current_dataframe, st') \<Rightarrow>
          (case merge_new_rows current_dataframe dataframe id_column of
             Inr df \<Rightarrow> (df, st')
           | Inl e \<Rightarrow>
               (dataframe, fst st',
                logger_write_log clk client ''powerbi_load'' ''INFO''
                  (''Creating new table: '' @ name) (snd st')))
      | (Inl e, st') \<Rightarrow>
          (dataframe, fst st',
           logger_write_log clk client ''powerbi_load'' ''INFO''
             (''Creating new table: '' @ name) (snd st')))"

text \<open>
  The body of the outer \<^verbatim>\<open>try\<close> (lines 45 to 78) for one table: \<open>Some e\<close> is the exception
  it raises, with the state reached at that point.
\<close>

definition table_body ::
  "'w DataLakeServiceClient \<Rightarrow> clock \<Rightarrow> string \<Rightarrow> string \<Rightarrow> string \<Rightarrow> string
     \<Rightarrow> 'w \<times> LoggingManager \<Rightarrow> error option \<times> 'w \<times> LoggingManager" where
  "table_body service clk today client kind name st =
     (case read_parquet_data service clk ''silver'' (today @ ''/'' @ client @ ''/'' @ name) st of
        (Inl e, st1) \<Rightarrow> (Some e, st1)
      | (Inr dataframe, st1) \<Rightarrow>
          (let id_column = id_column_of name;
               (df, st2) = read_gold_and_merge service clk client kind name dataframe id_column st1
           in (case write_parquet_data service clk df ''gold'' (gold_path kind name) st2 of
                 (Some e, st3) \<Rightarrow> (Some e, st3)
               | (None, st3) \<Rightarrow>
                   (None, fst st3,
                    logger_write_log clk client ''powerbi_load'' ''INFO''
                      (''Successfully processed '' @ name @ '' table'') (snd st3)))))"

text \<open>One iteration: the body, and the \<^verbatim>\<open>except\<close> clause of lines 80 to 86.\<close>

definition process_table ::
  "'w DataLakeServiceClient \<Rightarrow> clock \<Rightarrow> string \<Rightarrow> string \<Rightarrow> string \<Rightarrow> string
     \<Rightarrow> 'w \<times> LoggingManager \<Rightarrow> 'w \<times> LoggingManager" where
  "process_table service clk today client kind name st =
     (case table_body service clk today client kind name st of
        (None, st') \<Rightarrow> st'
      | (Some e, st') \<Rightarrow>
          (fst st', logger_write_log clk client ''powerbi_load'' ''ERROR''
                      (''Error processing '' @ name @ '' table: '' @ str_of_error e) (snd st')))"

fun names_loop ::
  "'w DataLakeServiceClient \<Rightarrow> clock \<Rightarrow> string \<Rightarrow> string \<Rightarrow> string \<Rightarrow> string list
     \<Rightarrow> 'w \<times> LoggingManager \<Rightarrow> 'w \<times> LoggingManager" where
  "names_loop service clk today client kind [] st = st"
| "names_loop service clk today client kind (name # rest) st =
     names_loop service clk today client kind rest
       (process_table service clk today client kind name st)"

fun kinds_loop ::
  "'w DataLakeServiceClient \<Rightarrow> clock \<Rightarrow> string \<Rightarrow> string \<Rightarrow> (string \<times> string list) list
     \<Rightarrow> 'w \<times> LoggingManager \<Rightarrow> 'w \<times> LoggingManager" where
  "kinds_loop service clk today client [] st = st"
| "kinds_loop service clk today client ((kind, tables) # rest) st =
     kinds_loop service clk today client rest
       (names_loop service clk today client kind tables st)"

definition load_power_bi_data ::
  "'w DataLakeServiceClient \<Rightarrow> clock \<Rightarrow> string \<Rightarrow> string \<Rightarrow> 'w \<times> LoggingManager
     \<Rightarrow> 'w \<times> LoggingManager" where
  "load_power_bi_data service clk today client st = kinds_loop service clk today client all_tables st"

section \<open>Workspace listing (modules/powerbi\_api.py, get\_workspaces)\<close>

text \<open>
  \<^verbatim>\<open>get_workspaces\<close> extends the list \<^verbatim>\<open>data\<close> in place and returns that same list, so lists
  live in a store and are passed by reference.  The default value of \<^verbatim>\<open>data\<close> is one list
  object, created when the method is defined; it is the reference \<open>default_data\<close>.
\<close>

type_synonym ref = nat

record api_state =
  heap :: "ref \<Rightarrow> json list"
  logger :: LoggingManager

definition default_data :: ref where
  "default_data = 0"

text \<open>
  \<open>sv top_n skip\<close> (\<open>top_n\<close> is the parameter \<^verbatim>\<open>top\<close>) is what \<^verbatim>\<open>make_request(...).json().get('value', [])\<close> gives for the request
  with these parameters, or the exception of the request.  \<open>depth\<close> is the number of
  nested calls the interpreter still allows; at 0 the call raises RecursionError, which
  every enclosing frame logs and re-raises.
\<close>

fun get_workspaces ::
  "nat \<Rightarrow> (int \<Rightarrow> int \<Rightarrow> error + json list) \<Rightarrow> clock \<Rightarrow> string \<Rightarrow> int \<Rightarrow> int \<Rightarrow> ref
     \<Rightarrow> api_state \<Rightarrow> (error + ref) \<times> api_state" where
  "get_workspaces 0 sv clk client top_n skip data st = (Inl RecursionError, st)"
| "get_workspaces (Suc depth) sv clk client top_n skip data st =
     (case sv top_n skip of
        Inl e \<Rightarrow>
          (Inl e, st\<lparr>logger := logger_write_log clk client ''Get Workspaces'' ''ERROR''
                      (''Failed to get workspaces: '' @ str_of_error e) (logger st)\<rparr>)
      | Inr result \<Rightarrow>
          (let st1 = st\<lparr>heap := (heap st)(data := heap st data @ result)\<rparr>;
               st2 = st1\<lparr>logger := logger_write_log clk client ''Get Workspaces'' ''DEBUG''
                        (''Retrieved '' @ str_of_nat (length result) @ '' workspaces (skip=''
                           @ str_of_int skip @ ''). Total workspaces: ''
                           @ str_of_nat (length (heap st1 data)))
                        (logger st1)\<rparr>
           in if int (length result) = top_n then
                (case get_workspaces depth sv clk client top_n (skip + top_n) data st2 of
                   (Inl e, st3) \<Rightarrow>
                     (Inl e, st3\<lparr>logger := logger_write_log clk client ''Get Workspaces'' ''ERROR''
                                  (''Failed to get workspaces: '' @ str_of_error e) (logger st3)\<rparr>)
                 | (Inr r, st3) \<Rightarrow> (Inr r, st3))
              else
                (Inr data,
                 st2\<lparr>logger := logger_write_log clk client ''Get Workspaces'' ''INFO''
                        (''Successfully retrieved a total of ''
                           @ str_of_nat (length (heap st2 data)) @ '' workspaces'')
                        (logger st2)\<rparr>)))"

text \<open>The call \<^verbatim>\<open>api.get_workspaces()\<close>: every argument takes its default.\<close>

definition get_workspaces_default ::
  "nat \<Rightarrow> (int \<Rightarrow> int \<Rightarrow> error + json list) \<Rightarrow> clock \<Rightarrow> string \<Rightarrow> api_state
     \<Rightarrow> (error + ref) \<times> api_state" where
  "get_workspaces_default depth sv clk client st =
     get_workspaces depth sv clk client 500 0 default_data st"

text \<open>
  The rows one call fetches from the service: page after page while a page is full, up
  to the first failure or the recursion limit.
\<close>

fun fetched :: "nat \<Rightarrow> (int \<Rightarrow> int \<Rightarrow> error + json list) \<Rightarrow> int \<Rightarrow> int \<Rightarrow> json list" where
  "fetched 0 sv top_n skip = []"
| "fetched (Suc depth) sv top_n skip =
     (case sv top_n skip of
        Inl e \<Rightarrow> []
      | Inr result \<Rightarrow>
          result @ (if int (length result) = top_n then fetched depth sv top_n (skip + top_n) else []))"

section \<open>Example data\<close>

text \<open>A table with the single int64 column \<^verbatim>\<open>id\<close> and one row per given number.\<close>

definition id_table :: "int list \<Rightarrow> DataFrame" where
  "id_table ns =
     \<lparr>columns = [(Name ''id'', Int64)], rows = map (\<lambda>n. [Name ''id'' \<mapsto> JNum n]) ns\<rparr>"



text \<open>A silver table without the column \<^verbatim>\<open>id\<close>.\<close>

definition names_table :: DataFrame where
  "names_table =
     \<lparr>columns = [(Name ''name'', Object)], rows = [[Name ''name'' \<mapsto> JStr ''Sales'']]\<rparr>"

text \<open>
  A data lake as a map from file system and file name to the table stored there: a read
  of a file that is not there fails, a write stores the table.
\<close>

type_synonym lake = "string \<times> string \<Rightarrow> DataFrame option"

definition lake_service :: "lake DataLakeServiceClient" where
  "lake_service =
     \<lparr>download_file =
        (\<lambda>w fs n. (case w (fs, n) of Some df \<Rightarrow> Inr df | None \<Rightarrow> Inl (IOError ''not found''), w)),
      upload_file = (\<lambda>w df fs n. (None, w((fs, n) \<mapsto> df)))\<rparr>"


text \<open>
  A lake that holds the gold table \<open>dimensions/dim_reports\<close> with the ids 1 and 2, and
  today's silver table \<open>reports\<close> of the client, which has no column \<^verbatim>\<open>id\<close>.
\<close>

definition reports_lake :: lake where
  "reports_lake =
     [(''gold'', ''dimensions/dim_reports'') \<mapsto> id_table [1, 2],
      (''silver'', ''03112026/acme/reports'') \<mapsto> names_table]"

definition noon :: clock where
  "noon = (\<lambda>n. (''03-11-2026'', ''12:00:00''))"

text \<open>The workspace record of the scenario in the specification.\<close>

definition scenario :: json where
  "scenario =
     JList [JObj [(''id'', JStr ''W1''),
       (''users'', JList [JObj [(''graphId'', JStr ''U1''), (''xUserAccessRight'', JStr ''Member'')]]),
       (''reports'', JList [JObj [(''id'', JStr ''R1''),
          (''users'', JList [JObj [(''graphId'', JStr ''U2''), (''yUserAccessRight'', JStr ''Viewer'')]]),
          (''name'', JStr ''Sales'')]])]]"

text \<open>A workspace with one report and one dataset, and one whose collection key ends in \<open>ss\<close>.\<close>

definition two_collections :: json where
  "two_collections =
     JList [JObj [(''id'', JStr ''W1''),
       (''reports'', JList [JObj [(''id'', JStr ''R1'')]]),
       (''datasets'', JList [JObj [(''id'', JStr ''D1'')]])]]"

definition access_collection :: json where
  "access_collection =
     JList [JObj [(''id'', JStr ''W1''), (''access'', JList [JObj [(''id'', JStr ''A1'')]])]]"

text \<open>A workspace whose report has neither \<^verbatim>\<open>id\<close> nor \<^verbatim>\<open>objectId\<close>.\<close>

definition anonymous_report :: json where
  "anonymous_report =
     JList [JObj [(''id'', JStr ''W1''), (''reports'', JList [JObj [(''name'', JStr ''Sales'')]])]]"

text \<open>
  A workspace with two reports, the first with both \<^verbatim>\<open>id\<close> and \<^verbatim>\<open>objectId\<close>, the second
  with \<^verbatim>\<open>objectId\<close> only.
\<close>

definition two_reports :: "json list" where
  "two_reports =
     [JObj [(''id'', JStr ''R1''), (''objectId'', JStr ''X'')],
      JObj [(''objectId'', JStr ''Y''), (''name'', JStr ''Sales'')]]"

text \<open>
  Two user records, the second with two keys that contain \<open>UserAccessRight\<close>, and a
  record without such a key.
\<close>

definition two_users :: "json list" where
  "two_users =
     [JObj [(''graphId'', JStr ''U1''), (''xUserAccessRight'', JStr ''Member'')],
      JObj [(''graphId'', JStr ''U2''), (''yUserAccessRight'', JStr ''Viewer''),
            (''zUserAccessRight'', JStr ''Admin'')]]"

definition no_right_user :: json where
  "no_right_user = JObj [(''graphId'', JStr ''U3''), (''displayName'', JStr ''Eve'')]"


text \<open>A service with a single workspace, and a process that has made no call yet.\<close>

definition one_page :: "int \<Rightarrow> int \<Rightarrow> error + json list" where
  "one_page top_n skip = Inr [JObj [(''id'', JStr ''W1'')]]"

definition fresh_api :: api_state where
  "fresh_api = \<lparr>heap = (\<lambda>r. []), logger = LoggingManager_init\<rparr>"

section \<open>Notions of the specification\<close>

text \<open>
  The singularisation rule in the words of the specification: strip exactly one trailing
  \<open>s\<close>; a key that does not end in \<open>s\<close> is unchanged.
\<close>

definition spec_singular :: "string \<Rightarrow> string" where
  "spec_singular key = (if key \<noteq> [] \<and> last key = CHR ''s'' then butlast key else key)"

text \<open>
  The identity of a child object in the words of the specification: the field \<^verbatim>\<open>id\<close>; if
  absent, the field \<^verbatim>\<open>objectId\<close>.  \<open>spec_edge\<close> is the containment edge with that identity.
\<close>

definition spec_identity :: "json \<Rightarrow> json option" where
  "spec_identity object =
     (case object of
        JObj kvs \<Rightarrow> (case map_of kvs ''id'' of Some v \<Rightarrow> Some v | None \<Rightarrow> map_of kvs ''objectId'')
      | _ \<Rightarrow> None)"

definition spec_edge :: "json \<Rightarrow> string \<Rightarrow> json \<Rightarrow> json" where
  "spec_edge workspace_id object_type object =
     JList [workspace_id, the (spec_identity object), JStr object_type]"

text \<open>
  The access right of a user record in the words of the specification: the value of the
  first key whose name contains \<open>UserAccessRight\<close>.  \<open>spec_access_row\<close> is the access tuple
  of a user record on an object.
\<close>

definition spec_access_right :: "(string \<times> json) list \<Rightarrow> json option" where
  "spec_access_right kvs =
     map_option snd (find (\<lambda>kv. sublist ''UserAccessRight'' (fst kv)) kvs)"

definition spec_access_row :: "json \<Rightarrow> string \<Rightarrow> json \<Rightarrow> json option" where
  "spec_access_row object_id object_type user =
     (case user of
        JObj kvs \<Rightarrow>
          (case (map_of kvs ''graphId'', spec_access_right kvs) of
             (Some g, Some r) \<Rightarrow> Some (JList [g, object_id, r, JStr object_type])
           | _ \<Rightarrow> None)
      | _ \<Rightarrow> None)"






text \<open>
  The log rows that close the iteration of one table: the row of the \<^verbatim>\<open>except\<close> clause
  (level ERROR) or the row \<^verbatim>\<open>Successfully processed ...\<close>.  \<open>outcome_for name e\<close> says that
  \<open>e\<close> is such a row for the table \<open>name\<close>.
\<close>

definition is_outcome :: "log_entry \<Rightarrow> bool" where
  "is_outcome e = (log_kind e = ''ERROR'' \<or> prefix ''Successfully processed '' (log_text e))"

definition outcome_for :: "string \<Rightarrow> log_entry \<Rightarrow> bool" where
  "outcome_for name e =
     (log_operation e = ''powerbi_load'' \<and>
      (if log_kind e = ''ERROR''
       then prefix (''Error processing '' @ name @ '' table: '') (log_text e)
       else log_kind e = ''INFO'' \<and> log_text e = ''Successfully processed '' @ name @ '' table''))"


section \<open>Properties of the LoggingManager\<close>

lemma logging_rows_write_log:
  "logging_rows (write_log now c op k t lm) = logging_rows lm @ [make_entry now c op k t]"
  by (simp add: write_log_def Let_def)

lemma logging_rows_write_logs:
  "logging_rows (write_logs calls lm) = logging_rows lm @ map entry_of_call calls"
proof (induction calls arbitrary: lm)
  case Nil
  show ?case by (simp add: write_logs_def)
next
  case (Cons call calls)
  obtain now c op k t where call: "call = (now, c, op, k, t)"
    by (cases call) auto
  have "write_logs (call # calls) lm = write_logs calls (write_log now c op k t lm)"
    by (simp add: write_logs_def call)
  then show ?case
    using Cons.IH [of "write_log now c op k t lm"]
    by (simp add: logging_rows_write_log call)
qed

text \<open>
  C10.  Every call of \<^verbatim>\<open>write_log\<close> appends exactly one entry to \<^verbatim>\<open>logging_rows\<close>,
  whatever the level: the buffer after the call is the buffer before it followed by the
  new entry, so its length grows by one and no earlier entry moves.  A \<^verbatim>\<open>DEBUG\<close> entry is
  buffered like any other and only its print is omitted.  After any sequence of calls
  the buffer holds the old entries followed by one entry per call, in call order.
\<close>

theorem write_log_appends_one:
  "logging_rows (write_log now c op k t lm) = logging_rows lm @ [make_entry now c op k t]
   \<and> length (logging_rows (write_log now c op k t lm)) = Suc (length (logging_rows lm))
   \<and> logging_rows (write_log now c op ''DEBUG'' t lm)
       = logging_rows lm @ [make_entry now c op ''DEBUG'' t]
   \<and> printed (write_log now c op ''DEBUG'' t lm) = printed lm
   \<and> logging_rows (write_logs calls lm) = logging_rows lm @ map entry_of_call calls
   \<and> length (logging_rows (write_logs calls lm)) = length (logging_rows lm) + length calls"
  by (simp add: logging_rows_write_log logging_rows_write_logs) (simp add: write_log_def)

theorem write_log_appends_one_witness:
  "logging_rows (write_logs
      [((''03-11-2026'', ''10:00:00''), ''acme'', ''powerbi'', ''DEBUG'', ''a''),
       ((''03-11-2026'', ''10:00:01''), ''acme'', ''powerbi'', ''INFO'', ''b'')]
      LoggingManager_init)
   = [make_entry (''03-11-2026'', ''10:00:00'') ''acme'' ''powerbi'' ''DEBUG'' ''a'',
      make_entry (''03-11-2026'', ''10:00:01'') ''acme'' ''powerbi'' ''INFO'' ''b'']"
  using write_log_appends_one [of "(''x'', ''y'')" "''c''" "''o''" "''k''" "''t''" LoggingManager_init
      "[((''03-11-2026'', ''10:00:00''), ''acme'', ''powerbi'', ''DEBUG'', ''a''),
        ((''03-11-2026'', ''10:00:01''), ''acme'', ''powerbi'', ''INFO'', ''b'')]"]
  by (simp add: LoggingManager_init_def)

section \<open>Properties of the curated-layer merge\<close>























section \<open>Properties of the flattening engine\<close>

lemmas flatten_unfold =
  flatten_def flat_init_def process_workspace_users_def process_workspace_objects_def
  fill_dimension_table_def element_id_of_def fill_user_table_def rstrip_s_def

text \<open>\<^verbatim>\<open>drop_duplicates\<close> keeps one copy of every row, the first, and nothing else.\<close>

lemma set_drop_duplicates: "set (drop_duplicates xs) = set xs"
  by (induction xs rule: drop_duplicates.induct) auto

lemma distinct_drop_duplicates: "distinct (drop_duplicates xs)"
  by (induction xs rule: drop_duplicates.induct) (auto simp: set_drop_duplicates)

lemma length_drop_duplicates: "length (drop_duplicates xs) \<le> length xs"
proof (induction xs rule: drop_duplicates.induct)
  case 1
  show ?case by simp
next
  case (2 x xs)
  have "length (filter (\<lambda>y. y \<noteq> x) xs) \<le> length xs" by simp
  with 2 have "length (drop_duplicates (filter (\<lambda>y. y \<noteq> x) xs)) \<le> length xs"
    by (rule le_trans)
  then show ?case by simp
qed

lemma drop_duplicates_distinct: "distinct xs \<Longrightarrow> drop_duplicates xs = xs"
proof (induction xs)
  case Nil
  show ?case by simp
next
  case (Cons x xs)
  then have "filter (\<lambda>y. y \<noteq> x) xs = xs"
    by (auto simp: filter_id_conv)
  with Cons show ?case by simp
qed

text \<open>
  On a key that does not end in \<open>ss\<close> the source's \<^verbatim>\<open>rstrip\<close> and the rule of the
  specification agree.
\<close>

lemma rstrip_s_single:
  assumes "\<not> suffix ''ss'' key"
  shows "rstrip_s key = spec_singular key"
proof (cases "rev key")
  case Nil
  then show ?thesis by (simp add: rstrip_s_def spec_singular_def)
next
  case (Cons c r)
  then have key: "key = rev r @ [c]" by (metis rev.simps(2) rev_rev_ident)
  show ?thesis
  proof (cases "c = CHR ''s''")
    case False
    then show ?thesis by (simp add: key rstrip_s_def spec_singular_def)
  next
    case True
    show ?thesis
    proof (cases r)
      case Nil
      then show ?thesis using True by (simp add: key rstrip_s_def spec_singular_def)
    next
      case (Cons d r')
      have "d \<noteq> CHR ''s''"
        using assms True Cons by (auto simp: key suffix_def)
      then show ?thesis
        using True Cons by (simp add: key rstrip_s_def spec_singular_def butlast_append)
    qed
  qed
qed

text \<open>
  C1.  The flattening engine on the scenario workspace.  The access tuple of the nested
  user U2 is built for the child object R1 with type \<open>report\<close>, but it is appended to the
  \<open>users\<close> collection: \<open>user_access\<close> holds the workspace-level tuple only.  The older loop
  of transform.py puts the tuple into \<open>user_access\<close>, with the plural key as the type.
\<close>

theorem scenario_flatten:
  "flatten scenario =
     Inr \<lparr>user_access = [JList [JStr ''U1'', JStr ''W1'', JStr ''Member'', JStr ''workspace'']],
          users = [JObj [(''graphId'', JStr ''U1''), (''emailAddress'', JStr []),
                         (''displayName'', JStr [])],
                   JList [JStr ''U2'', JStr ''R1'', JStr ''Viewer'', JStr ''report'']],
          workspace_content = [JList [JStr ''W1'', JStr ''R1'', JStr ''report'']],
          all_data = [(''report'', [JObj [(''id'', JStr ''R1''), (''name'', JStr ''Sales'')]])]\<rparr>
   \<and> process_single_client_flatten scenario =
     Inr \<lparr>user_access = [JList [JStr ''U1'', JStr ''W1'', JStr ''Member'', JStr ''workspace''],
                         JList [JStr ''U2'', JStr ''R1'', JStr ''Viewer'', JStr ''reports'']],
          users = [JObj [(''graphId'', JStr ''U1''), (''xUserAccessRight'', JStr ''Member'')]],
          workspace_content = [JList [JStr ''W1'', JStr ''R1'', JStr ''reports'']],
          all_data = [(''reports'', [JObj [(''id'', JStr ''R1''), (''name'', JStr ''Sales'')]])]\<rparr>"
  by (simp add: scenario_def process_single_client_flatten_def flatten_unfold)

text \<open>
  C3.  \<^verbatim>\<open>key.rstrip('s')\<close> gives \<open>dataset\<close> for \<open>datasets\<close> and \<open>report\<close> for \<open>reports\<close>, but
  it removes every trailing \<open>s\<close>: the key \<open>access\<close> becomes \<open>acce\<close>, where stripping one
  trailing \<open>s\<close> gives \<open>acces\<close>, and \<open>acce\<close> is the object type of the children of that key.
\<close>

theorem rstrip_removes_every_trailing_s:
  "rstrip_s ''datasets'' = ''dataset'' \<and> rstrip_s ''reports'' = ''report''
   \<and> rstrip_s ''access'' = ''acce'' \<and> spec_singular ''access'' = ''acces''
   \<and> (\<exists>st. flatten access_collection = Inr st
          \<and> workspace_content st = [JList [JStr ''W1'', JStr ''A1'', JStr ''acce'']])"
  by (simp add: access_collection_def spec_singular_def flatten_unfold)

text \<open>
  C4.  The table \<open>workspace_content\<close> is written as collected, without
  \<^verbatim>\<open>drop_duplicates\<close>.  For a workspace with one report and one dataset the engine
  collects each content edge and each dimension row twice; the two dimension tables
  come out with one row each, and the output table \<open>workspace_content\<close> has all four
  rows.
\<close>

theorem workspace_content_keeps_duplicates:
  "\<exists>st. flatten two_collections = Inr st
     \<and> map_of (output_data ws acts st) ''workspace_content'' =
         Some [JList [JStr ''W1'', JStr ''R1'', JStr ''report''],
               JList [JStr ''W1'', JStr ''D1'', JStr ''dataset''],
               JList [JStr ''W1'', JStr ''R1'', JStr ''report''],
               JList [JStr ''W1'', JStr ''D1'', JStr ''dataset'']]
     \<and> all_data st =
         [(''report'', [JObj [(''id'', JStr ''R1'')], JObj [(''id'', JStr ''R1'')]]),
          (''dataset'', [JObj [(''id'', JStr ''D1'')], JObj [(''id'', JStr ''D1'')]])]
     \<and> map_of (output_data ws acts st) ''report'' = Some [JObj [(''id'', JStr ''R1'')]]
     \<and> map_of (output_data ws acts st) ''dataset'' = Some [JObj [(''id'', JStr ''D1'')]]"
  by (simp add: two_collections_def output_data_def flatten_unfold)

subsection \<open>Identity resolution\<close>

lemma element_id_of_obj:
  "element_id_of (JObj kvs) =
     (case map_of kvs ''id'' of
        Some v \<Rightarrow> Inr v
      | None \<Rightarrow> (case map_of kvs ''objectId'' of Some v \<Rightarrow> Inr v | None \<Rightarrow> Inl (KeyError ''objectId'')))"
  by (simp add: element_id_of_def split: option.splits)

lemma element_id_of_non_obj: "\<forall>kvs. x \<noteq> JObj kvs \<Longrightarrow> element_id_of x = Inl TypeError"
  by (cases x) (simp_all add: element_id_of_def)

lemma fill_dimension_table_no_id:
  "isl (element_id_of obj) \<Longrightarrow> isl (fill_dimension_table wc us ad wid t obj)"
  by (cases "element_id_of obj") (simp_all add: fill_dimension_table_def)

lemma fill_dimension_table_edge:
  assumes "fill_dimension_table wc us ad wid t obj = Inr (wc', us', ad')"
  shows "\<exists>eid. element_id_of obj = Inr eid \<and> wc' = wc @ [JList [wid, eid, JStr t]]"
  using assms
  by (auto simp: fill_dimension_table_def split: sum.splits)

lemma objects_loop_aborts:
  "obj \<in> set objs \<Longrightarrow> isl (element_id_of obj) \<Longrightarrow> isl (objects_loop wid key st objs)"
proof (induction objs arbitrary: st)
  case Nil
  then show ?case by simp
next
  case (Cons a objs)
  obtain wc us ad where st: "st = (wc, us, ad)" by (cases st) auto
  show ?case
  proof (cases "fill_dimension_table wc us ad wid (rstrip_s key) a")
    case (Inl e)
    then show ?thesis by (simp add: st)
  next
    case (Inr st')
    then have "\<not> isl (element_id_of a)"
      using fill_dimension_table_no_id [of a wc us ad wid "rstrip_s key"] by auto
    with Cons.prems have "obj \<in> set objs" by auto
    with Cons.IH Cons.prems(2) Inr show ?thesis by (simp add: st)
  qed
qed

lemma items_loop_aborts:
  "(key, JList objs) \<in> set items \<Longrightarrow> key \<noteq> ''users'' \<Longrightarrow> obj \<in> set objs
     \<Longrightarrow> isl (element_id_of obj) \<Longrightarrow> isl (items_loop wid st items)"
proof (induction items arbitrary: st)
  case Nil
  then show ?case by simp
next
  case (Cons kv items)
  obtain k v where kv: "kv = (k, v)" by (cases kv) auto
  show ?case
  proof (cases "kv = (key, JList objs)")
    case True
    then show ?thesis
      using Cons.prems objects_loop_aborts [of obj objs wid key st]
      by (auto split: sum.splits)
  next
    case False
    then have "(key, JList objs) \<in> set items" using Cons.prems(1) by auto
    then have "\<And>st'. isl (items_loop wid st' items)"
      using Cons.IH Cons.prems by blast
    then show ?thesis
      by (cases v) (auto simp: kv split: sum.splits)
  qed
qed

lemma process_workspace_objects_aborts:
  "(key, JList objs) \<in> set items \<Longrightarrow> key \<noteq> ''users'' \<Longrightarrow> obj \<in> set objs
     \<Longrightarrow> isl (element_id_of obj) \<Longrightarrow> isl (process_workspace_objects wc us ad (JObj items))"
  using items_loop_aborts [of key objs items obj]
  by (auto simp: process_workspace_objects_def split: option.splits)

lemma workspace_keys_loop_aborts:
  "(key, JList objs) \<in> set rest \<Longrightarrow> key \<noteq> ''users'' \<Longrightarrow>
   (\<And>wc us ad. isl (process_workspace_objects wc us ad workspace))
     \<Longrightarrow> isl (workspace_keys_loop workspace st rest)"
proof (induction rest arbitrary: st)
  case Nil
  then show ?case by simp
next
  case (Cons kv rest)
  obtain k v where kv: "kv = (k, v)" by (cases kv) auto
  show ?case
  proof (cases "kv = (key, JList objs)")
    case True
    then show ?thesis
      using Cons.prems(2) Cons.prems(3) [of "workspace_content st" "users st" "all_data st"]
      by (auto split: sum.splits)
  next
    case False
    then have "(key, JList objs) \<in> set rest" using Cons.prems(1) by auto
    then have ih: "\<And>st'. isl (workspace_keys_loop workspace st' rest)"
      using Cons.IH Cons.prems by blast
    show ?thesis
      using ih by (auto simp: kv split: sum.splits prod.splits)
  qed
qed

lemma workspaces_loop_aborts:
  "w \<in> set ws \<Longrightarrow> (\<And>st kvs. py_items w = Inr kvs \<Longrightarrow> isl (workspace_keys_loop w st kvs))
     \<Longrightarrow> isl (workspaces_loop st ws)"
proof (induction ws arbitrary: st)
  case Nil
  then show ?case by simp
next
  case (Cons a ws)
  show ?case
  proof (cases "a = w")
    case True
    show ?thesis
    proof (cases "py_items w")
      case (Inl e)
      then show ?thesis by (simp add: True)
    next
      case (Inr kvs)
      then have "isl (workspace_keys_loop w st kvs)"
        by (rule Cons.prems(2))
      then show ?thesis
        by (cases "workspace_keys_loop w st kvs") (simp_all add: True Inr)
    qed
  next
    case False
    then have "w \<in> set ws" using Cons.prems(1) by auto
    then have "\<And>st'. isl (workspaces_loop st' ws)"
      using Cons.IH Cons.prems(2) by blast
    then show ?thesis by (auto split: sum.splits)
  qed
qed

lemma flatten_aborts:
  assumes "JObj items \<in> set ws" and "(key, JList objs) \<in> set items" and "key \<noteq> ''users''"
    and "obj \<in> set objs" and "isl (element_id_of obj)"
  shows "isl (flatten (JList ws))"
proof -
  have "\<And>wc us ad. isl (process_workspace_objects wc us ad (JObj items))"
    using process_workspace_objects_aborts [OF assms(2-5)] .
  then have "\<And>st. isl (workspace_keys_loop (JObj items) st items)"
    using workspace_keys_loop_aborts [OF assms(2,3)] by blast
  then have "isl (workspaces_loop flat_init ws)"
    using workspaces_loop_aborts [OF assms(1)] by simp
  then show ?thesis by (simp add: flatten_def)
qed

lemma element_id_of_spec:
  "element_id_of object =
     (case spec_identity object of
        Some v \<Rightarrow> Inr v
      | None \<Rightarrow> (case object of JObj kvs \<Rightarrow> Inl (KeyError ''objectId'') | _ \<Rightarrow> Inl TypeError))"
  by (cases object) (simp_all add: element_id_of_def spec_identity_def split: option.splits)

lemma fill_dimension_table_result:
  assumes "spec_identity (JObj kvs) = Some eid"
    and "fill_user_table us t eid (case map_of kvs ''users'' of Some u \<Rightarrow> u | None \<Rightarrow> JList []) = Inr us'"
  shows "fill_dimension_table wc us ad wid t (JObj kvs) =
           Inr (wc @ [JList [wid, eid, JStr t]], us',
                all_data_append ad t (JObj (filter (\<lambda>kv. is_str (snd kv)) kvs)))"
  using assms by (simp add: fill_dimension_table_def element_id_of_spec)

lemma fill_dimension_table_edge_spec:
  assumes "fill_dimension_table wc us ad wid t obj = Inr (wc', us', ad')"
  shows "spec_identity obj \<noteq> None \<and> wc' = wc @ [spec_edge wid t obj]"
  using assms
  by (auto simp: fill_dimension_table_def element_id_of_spec spec_edge_def
      split: sum.splits option.splits json.splits)

lemma objects_loop_edges:
  "objects_loop wid key (wc, us, ad) objs = Inr (wc', us', ad') \<Longrightarrow>
     (\<forall>obj \<in> set objs. spec_identity obj \<noteq> None)
     \<and> wc' = wc @ map (spec_edge wid (rstrip_s key)) objs"
proof (induction objs arbitrary: wc us ad)
  case Nil
  then show ?case by simp
next
  case (Cons obj objs)
  from Cons.prems obtain wc1 us1 ad1 where
    step: "fill_dimension_table wc us ad wid (rstrip_s key) obj = Inr (wc1, us1, ad1)"
    and rest: "objects_loop wid key (wc1, us1, ad1) objs = Inr (wc', us', ad')"
    by (auto split: sum.splits)
  have one: "spec_identity obj \<noteq> None \<and> wc1 = wc @ [spec_edge wid (rstrip_s key) obj]"
    using fill_dimension_table_edge_spec [OF step] .
  have more: "(\<forall>x \<in> set objs. spec_identity x \<noteq> None)
     \<and> wc' = wc1 @ map (spec_edge wid (rstrip_s key)) objs"
    using Cons.IH [OF rest] .
  from one more show ?case by simp
qed

text \<open>
  C5.  The identity of a child object is the value of its field \<^verbatim>\<open>id\<close> when it has one,
  else the value of its field \<^verbatim>\<open>objectId\<close>.  \<^verbatim>\<open>fill_dimension_table\<close> on an object with such
  an identity, whose nested users are accepted, returns, and the content edge it appends
  carries that identity; the loop over the objects of a key appends, for every object in
  turn, the edge with the object's identity.  For an object with neither field
  \<^verbatim>\<open>fill_dimension_table\<close> raises KeyError, and a scan in which some workspace lists such an
  object under a key other than \<^verbatim>\<open>users\<close> makes the whole flattening pass end in an
  error: no object is skipped and no default is substituted.
\<close>

theorem identity_resolution:
  "(map_of kvs ''id'' = Some v \<longrightarrow> element_id_of (JObj kvs) = Inr v)
   \<and> (map_of kvs ''id'' = None \<and> map_of kvs ''objectId'' = Some v
        \<longrightarrow> element_id_of (JObj kvs) = Inr v)
   \<and> (spec_identity (JObj kvs) = Some eid
        \<and> fill_user_table us t eid (case map_of kvs ''users'' of Some u \<Rightarrow> u | None \<Rightarrow> JList [])
            = Inr us1
        \<longrightarrow> fill_dimension_table wc us ad wid t (JObj kvs) =
              Inr (wc @ [JList [wid, eid, JStr t]], us1,
                   all_data_append ad t (JObj (filter (\<lambda>kv. is_str (snd kv)) kvs))))
   \<and> (fill_dimension_table wc us ad wid t (JObj kvs) = Inr (wc', us', ad')
        \<longrightarrow> (\<exists>eid. element_id_of (JObj kvs) = Inr eid \<and> wc' = wc @ [JList [wid, eid, JStr t]]))
   \<and> (objects_loop wid key (wc, us, ad) objs = Inr (wc', us', ad')
        \<longrightarrow> (\<forall>x \<in> set objs. spec_identity x \<noteq> None)
          \<and> wc' = wc @ map (spec_edge wid (rstrip_s key)) objs)
   \<and> (map_of kvs ''id'' = None \<and> map_of kvs ''objectId'' = None
        \<longrightarrow> fill_dimension_table wc us ad wid t (JObj kvs) = Inl (KeyError ''objectId'')
          \<and> (JObj items \<in> set ws \<and> (key, JList objs) \<in> set items \<and> key \<noteq> ''users''
                \<and> JObj kvs \<in> set objs
              \<longrightarrow> isl (flatten (JList ws))))"
proof (intro conjI impI)
  assume "map_of kvs ''id'' = Some v"
  then show "element_id_of (JObj kvs) = Inr v"
    by (simp add: element_id_of_obj)
next
  assume "map_of kvs ''id'' = None \<and> map_of kvs ''objectId'' = Some v"
  then show "element_id_of (JObj kvs) = Inr v"
    by (simp add: element_id_of_obj)
next
  assume "spec_identity (JObj kvs) = Some eid
        \<and> fill_user_table us t eid (case map_of kvs ''users'' of Some u \<Rightarrow> u | None \<Rightarrow> JList [])
            = Inr us1"
  then show "fill_dimension_table wc us ad wid t (JObj kvs) =
              Inr (wc @ [JList [wid, eid, JStr t]], us1,
                   all_data_append ad t (JObj (filter (\<lambda>kv. is_str (snd kv)) kvs)))"
    using fill_dimension_table_result by blast
next
  assume "fill_dimension_table wc us ad wid t (JObj kvs) = Inr (wc', us', ad')"
  then show "\<exists>eid. element_id_of (JObj kvs) = Inr eid \<and> wc' = wc @ [JList [wid, eid, JStr t]]"
    by (rule fill_dimension_table_edge)
next
  assume loop: "objects_loop wid key (wc, us, ad) objs = Inr (wc', us', ad')"
  show "\<forall>x \<in> set objs. spec_identity x \<noteq> None"
    using objects_loop_edges [OF loop] by blast
  show "wc' = wc @ map (spec_edge wid (rstrip_s key)) objs"
    using objects_loop_edges [OF loop] by blast
next
  assume "map_of kvs ''id'' = None \<and> map_of kvs ''objectId'' = None"
  then show "fill_dimension_table wc us ad wid t (JObj kvs) = Inl (KeyError ''objectId'')"
    by (simp add: fill_dimension_table_def element_id_of_obj)
next
  assume none: "map_of kvs ''id'' = None \<and> map_of kvs ''objectId'' = None"
    and "JObj items \<in> set ws \<and> (key, JList objs) \<in> set items \<and> key \<noteq> ''users''
                \<and> JObj kvs \<in> set objs"
  moreover have "isl (element_id_of (JObj kvs))"
    using none by (simp add: element_id_of_obj)
  ultimately show "isl (flatten (JList ws))"
    using flatten_aborts [of items ws key objs "JObj kvs"] by blast
qed

text \<open>
  Two reports under the key \<open>reports\<close>, the first with \<^verbatim>\<open>id\<close> R1, the second with
  \<^verbatim>\<open>objectId\<close> Y only: the loop returns and appends the edges for R1 and Y.  A report
  with neither field ends the pass in an error.
\<close>

theorem identity_resolution_witness:
  "objects_loop (JStr ''W1'') ''reports'' ([], [], []) two_reports =
     Inr ([JList [JStr ''W1'', JStr ''R1'', JStr ''report''],
           JList [JStr ''W1'', JStr ''Y'', JStr ''report'']],
          [],
          [(''report'', [JObj [(''id'', JStr ''R1''), (''objectId'', JStr ''X'')],
                         JObj [(''objectId'', JStr ''Y''), (''name'', JStr ''Sales'')]])])
   \<and> map (spec_edge (JStr ''W1'') ''report'') two_reports =
       [JList [JStr ''W1'', JStr ''R1'', JStr ''report''],
        JList [JStr ''W1'', JStr ''Y'', JStr ''report'']]
   \<and> isl (flatten anonymous_report)"
proof -
  let ?ad = "[(''report'', [JObj [(''id'', JStr ''R1''), (''objectId'', JStr ''X'')],
                           JObj [(''objectId'', JStr ''Y''), (''name'', JStr ''Sales'')]])]"
  let ?wc = "[JList [JStr ''W1'', JStr ''R1'', JStr ''report''],
              JList [JStr ''W1'', JStr ''Y'', JStr ''report'']]"
  have run: "objects_loop (JStr ''W1'') ''reports'' ([], [], []) two_reports = Inr (?wc, [], ?ad)"
    by (simp add: two_reports_def fill_dimension_table_def element_id_of_def fill_user_table_def
        rstrip_s_def)
  have strip: "rstrip_s ''reports'' = ''report''"
    by (simp add: rstrip_s_def)
  have edges: "?wc = [] @ map (spec_edge (JStr ''W1'') ''report'') two_reports"
    using identity_resolution [of "[(''name'', JStr ''Sales'')]" JNull JNull "[]" "''report''"
        "[]" "[]" "[]" "JStr ''W1''" ?wc "[]" ?ad "''reports''" two_reports
        "[(''id'', JStr ''W1''), (''reports'', JList [JObj [(''name'', JStr ''Sales'')]])]"
        "[JObj [(''id'', JStr ''W1''), (''reports'', JList [JObj [(''name'', JStr ''Sales'')]])]]"]
      run strip
    by simp
  have abort: "isl (flatten anonymous_report)"
    using identity_resolution [of "[(''name'', JStr ''Sales'')]" JNull JNull "[]" "''report''"
        "[]" "[]" "[]" "JStr ''W1''" "[]" "[]" "[]" "''reports''"
        "[JObj [(''name'', JStr ''Sales'')]]"
        "[(''id'', JStr ''W1''), (''reports'', JList [JObj [(''name'', JStr ''Sales'')]])]"
        "[JObj [(''id'', JStr ''W1''), (''reports'', JList [JObj [(''name'', JStr ''Sales'')]])]]"]
    by (simp add: anonymous_report_def)
  from run edges abort show ?thesis by simp
qed

subsection \<open>Access-right discovery\<close>

lemma str_contains_sublist: "str_contains sub s \<longleftrightarrow> sublist sub s"
  by (induction s) (simp_all add: sublist_Cons_right)

lemma access_right_first_match:
  assumes "kvs = pre @ (k, v) # post"
    and "sublist ''UserAccessRight'' k"
    and "\<forall>k' \<in> fst ` set pre. \<not> sublist ''UserAccessRight'' k'"
  shows "access_right (JObj kvs) = Inr v"
proof -
  have pre: "filter (str_contains ''UserAccessRight'') (map fst pre) = []"
    using assms(3) by (auto simp: filter_empty_conv str_contains_sublist)
  have "k \<notin> fst ` set pre"
    using assms(2,3) by auto
  then have "map_of pre k = None"
    by (simp add: map_of_eq_None_iff)
  then have look: "map_of kvs k = Some v"
    by (simp add: assms(1) map_add_def)
  have "filter (str_contains ''UserAccessRight'') (map fst kvs)
          = k # filter (str_contains ''UserAccessRight'') (map fst post)"
    using pre assms(2) by (simp add: assms(1) str_contains_sublist)
  then show ?thesis
    using look by simp
qed

lemma access_right_no_match:
  assumes "\<forall>k \<in> fst ` set kvs. \<not> sublist ''UserAccessRight'' k"
  shows "access_right (JObj kvs) = Inl IndexError"
proof -
  have "filter (str_contains ''UserAccessRight'') (map fst kvs) = []"
    using assms by (auto simp: filter_empty_conv str_contains_sublist)
  then show ?thesis by simp
qed

lemma fill_user_table_loop_aborts:
  "user \<in> set us \<Longrightarrow> isl (access_right user) \<Longrightarrow> isl (fill_user_table_loop ua t oid us)"
proof (induction us arbitrary: ua)
  case Nil
  then show ?case by simp
next
  case (Cons a us)
  show ?case
  proof (cases "a = user")
    case True
    then show ?thesis
      using Cons.prems(2) by (cases "access_right user") simp_all
  next
    case False
    then have "user \<in> set us" using Cons.prems(1) by auto
    then have "\<And>ua'. isl (fill_user_table_loop ua' t oid us)"
      using Cons.IH Cons.prems(2) by blast
    then show ?thesis by (auto split: sum.splits)
  qed
qed

lemma process_workspace_users_loop_aborts:
  "user \<in> set ulist \<Longrightarrow> isl (access_right user)
     \<Longrightarrow> isl (process_workspace_users_loop wid ua us ulist)"
proof (induction ulist arbitrary: ua us)
  case Nil
  then show ?case by simp
next
  case (Cons a ulist)
  show ?case
  proof (cases "a = user")
    case True
    then show ?thesis
      using Cons.prems(2) by (cases "access_right user") (auto split: sum.splits)
  next
    case False
    then have "user \<in> set ulist" using Cons.prems(1) by auto
    then have "\<And>ua' us'. isl (process_workspace_users_loop wid ua' us' ulist)"
      using Cons.IH Cons.prems(2) by blast
    then show ?thesis by (auto split: sum.splits)
  qed
qed

lemma filter_keys_find:
  "filter P (map fst kvs) = [] \<longleftrightarrow> find (\<lambda>kv. P (fst kv)) kvs = None"
  by (induction kvs) auto

lemma find_holds: "find P xs = Some x \<Longrightarrow> P x"
  by (induction xs) (auto split: if_splits)

lemma first_key_value:
  "find (\<lambda>kv. P (fst kv)) kvs = Some (k, v) \<Longrightarrow>
     \<exists>rest. filter P (map fst kvs) = k # rest \<and> map_of kvs k = Some v"
proof (induction kvs)
  case Nil
  then show ?case by simp
next
  case (Cons kv kvs)
  show ?case
  proof (cases "P (fst kv)")
    case True
    with Cons.prems have "kv = (k, v)" by simp
    with True show ?thesis by simp
  next
    case False
    with Cons.prems have found: "find (\<lambda>kv. P (fst kv)) kvs = Some (k, v)" by simp
    then have "P k" using find_holds [of "\<lambda>kv. P (fst kv)" kvs "(k, v)"] by simp
    with False have "fst kv \<noteq> k" by auto
    with Cons.IH [OF found] False show ?thesis by auto
  qed
qed

lemma access_right_spec:
  "access_right (JObj kvs) =
     (case spec_access_right kvs of Some v \<Rightarrow> Inr v | None \<Rightarrow> Inl IndexError)"
proof (cases "find (\<lambda>kv. sublist ''UserAccessRight'' (fst kv)) kvs")
  case None
  then have "filter (str_contains ''UserAccessRight'') (map fst kvs) = []"
    using filter_keys_find [of "str_contains ''UserAccessRight''" kvs]
    by (simp add: str_contains_sublist)
  with None show ?thesis by (simp add: spec_access_right_def)
next
  case (Some kv)
  obtain k v where kv: "kv = (k, v)" by (cases kv) auto
  have "find (\<lambda>kv. str_contains ''UserAccessRight'' (fst kv)) kvs = Some (k, v)"
    using Some kv by (simp add: str_contains_sublist)
  then obtain rest where
    "filter (str_contains ''UserAccessRight'') (map fst kvs) = k # rest" "map_of kvs k = Some v"
    using first_key_value [of "str_contains ''UserAccessRight''" kvs k v] by blast
  with Some kv show ?thesis by (simp add: spec_access_right_def)
qed

lemma fill_user_table_loop_rows:
  "\<forall>u \<in> set ulist. spec_access_row oid t u \<noteq> None \<Longrightarrow>
     fill_user_table_loop ua t oid ulist = Inr (ua @ map (\<lambda>u. the (spec_access_row oid t u)) ulist)"
proof (induction ulist arbitrary: ua)
  case Nil
  show ?case by simp
next
  case (Cons u ulist)
  from Cons.prems obtain kvs g r where u: "u = JObj kvs"
    and g: "map_of kvs ''graphId'' = Some g" and r: "spec_access_right kvs = Some r"
    by (auto simp: spec_access_row_def split: json.splits option.splits)
  have row: "spec_access_row oid t u = Some (JList [g, oid, r, JStr t])"
    by (simp add: spec_access_row_def u g r)
  have ar: "access_right u = Inr r"
    by (simp only: u access_right_spec r option.case)
  have gid: "subscript u ''graphId'' = Inr g"
    by (simp add: u g)
  have "fill_user_table_loop ua t oid (u # ulist)
          = fill_user_table_loop (ua @ [JList [g, oid, r, JStr t]]) t oid ulist"
    by (simp add: ar gid del: access_right.simps subscript.simps)
  also have "\<dots> = Inr ((ua @ [JList [g, oid, r, JStr t]]) @ map (\<lambda>u. the (spec_access_row oid t u)) ulist)"
    using Cons.IH Cons.prems by simp
  finally show ?case by (simp add: row)
qed

lemma process_workspace_users_loop_rows:
  "\<forall>u \<in> set ulist. spec_access_row wid ''workspace'' u \<noteq> None \<Longrightarrow>
     \<exists>us'. process_workspace_users_loop wid ua us ulist
             = Inr (ua @ map (\<lambda>u. the (spec_access_row wid ''workspace'' u)) ulist, us')"
proof (induction ulist arbitrary: ua us)
  case Nil
  show ?case by simp
next
  case (Cons u ulist)
  from Cons.prems obtain kvs g r where u: "u = JObj kvs"
    and g: "map_of kvs ''graphId'' = Some g" and r: "spec_access_right kvs = Some r"
    by (auto simp: spec_access_row_def split: json.splits option.splits)
  have row: "spec_access_row wid ''workspace'' u = Some (JList [g, wid, r, JStr ''workspace''])"
    by (simp add: spec_access_row_def u g r)
  have ar: "access_right u = Inr r"
    by (simp only: u access_right_spec r option.case)
  have gid: "subscript u ''graphId'' = Inr g"
    by (simp add: u g)
  obtain em dn where gets: "py_get u ''emailAddress'' (JStr []) = Inr em"
    "py_get u ''displayName'' (JStr []) = Inr dn"
    by (simp add: u)
  let ?ua1 = "ua @ [JList [g, wid, r, JStr ''workspace'']]"
  let ?us1 = "us @ [JObj [(''graphId'', g), (''emailAddress'', em), (''displayName'', dn)]]"
  have step: "process_workspace_users_loop wid ua us (u # ulist)
          = process_workspace_users_loop wid ?ua1 ?us1 ulist"
    by (simp add: ar gid gets del: access_right.simps subscript.simps py_get.simps)
  obtain us' where "process_workspace_users_loop wid ?ua1 ?us1 ulist
      = Inr (?ua1 @ map (\<lambda>u. the (spec_access_row wid ''workspace'' u)) ulist, us')"
    using Cons.IH [of ?ua1 ?us1] Cons.prems by auto
  with step show ?case by (simp add: row)
qed

lemma workspace_keys_loop_users_abort:
  "(''users'', JList ulist) \<in> set rest \<Longrightarrow>
   (\<And>ua us. isl (process_workspace_users ua us workspace))
     \<Longrightarrow> isl (workspace_keys_loop workspace st rest)"
proof (induction rest arbitrary: st)
  case Nil
  then show ?case by simp
next
  case (Cons kv rest)
  obtain k v where kv: "kv = (k, v)" by (cases kv) auto
  show ?case
  proof (cases "kv = (''users'', JList ulist)")
    case True
    then show ?thesis
      using Cons.prems(2) [of "user_access st" "users st"]
      by (auto split: sum.splits)
  next
    case False
    then have "(''users'', JList ulist) \<in> set rest" using Cons.prems(1) by auto
    then have ih: "\<And>st'. isl (workspace_keys_loop workspace st' rest)"
      using Cons.IH Cons.prems by blast
    show ?thesis
      using ih by (auto simp: kv split: sum.splits prod.splits)
  qed
qed

lemma find_first:
  "\<forall>x \<in> set pre. \<not> P x \<Longrightarrow> P y \<Longrightarrow> find P (pre @ y # post) = Some y"
  by (induction pre) auto

lemma process_workspace_users_aborts:
  assumes "map_of items ''users'' = Some (JList ulist)" and "user \<in> set ulist"
    and "isl (access_right user)"
  shows "isl (process_workspace_users ua us (JObj items))"
  using assms process_workspace_users_loop_aborts [OF assms(2,3)]
  by (simp add: process_workspace_users_def split: option.splits)

lemma flatten_aborts_on_user:
  assumes "JObj items \<in> set ws" and "map_of items ''users'' = Some (JList ulist)"
    and "user \<in> set ulist" and "isl (access_right user)"
  shows "isl (flatten (JList ws))"
proof -
  have listed: "(''users'', JList ulist) \<in> set items"
    using assms(2) by (rule map_of_SomeD)
  have "\<And>ua us. isl (process_workspace_users ua us (JObj items))"
    using process_workspace_users_aborts [OF assms(2-4)] .
  then have "\<And>st. isl (workspace_keys_loop (JObj items) st items)"
    using workspace_keys_loop_users_abort [OF listed] by blast
  then have "isl (workspaces_loop flat_init ws)"
    using workspaces_loop_aborts [OF assms(1)] by simp
  then show ?thesis by (simp add: flatten_def)
qed

text \<open>
  C6.  For a user record, the recorded access right is the value of the first key whose
  name contains \<open>UserAccessRight\<close> (containment is \<^const>\<open>sublist\<close>).  For every list of
  user records that each have such a key and a \<^verbatim>\<open>graphId\<close>, \<^verbatim>\<open>fill_user_table\<close> and
  \<^verbatim>\<open>process_workspace_users\<close> return and append, for every record in turn, the access row
  with that right.  For a record without such a key the lookup raises IndexError, both
  functions end in an error on any user list that contains the record, and so does the
  flattening pass on a scan with such a workspace; no right is defaulted.
\<close>

theorem access_right_discovery:
  "access_right (JObj kvs) =
     (case spec_access_right kvs of Some r \<Rightarrow> Inr r | None \<Rightarrow> Inl IndexError)
   \<and> (kvs = pre @ (k, v) # post \<and> sublist ''UserAccessRight'' k
        \<and> (\<forall>k' \<in> fst ` set pre. \<not> sublist ''UserAccessRight'' k')
       \<longrightarrow> spec_access_right kvs = Some v)
   \<and> ((\<forall>k \<in> fst ` set kvs. \<not> sublist ''UserAccessRight'' k) \<longrightarrow> spec_access_right kvs = None)
   \<and> ((\<forall>u \<in> set ulist. spec_access_row oid t u \<noteq> None)
       \<longrightarrow> fill_user_table ua t oid (JList ulist)
             = Inr (ua @ map (\<lambda>u. the (spec_access_row oid t u)) ulist))
   \<and> (map_of items ''id'' = Some wid \<and> map_of items ''users'' = Some (JList ulist)
        \<and> (\<forall>u \<in> set ulist. spec_access_row wid ''workspace'' u \<noteq> None)
       \<longrightarrow> (\<exists>us'. process_workspace_users ua us (JObj items)
                    = Inr (ua @ map (\<lambda>u. the (spec_access_row wid ''workspace'' u)) ulist, us')))
   \<and> (JObj kvs \<in> set ulist \<and> spec_access_right kvs = None
       \<longrightarrow> isl (fill_user_table ua t oid (JList ulist))
         \<and> (map_of items ''users'' = Some (JList ulist)
             \<longrightarrow> isl (process_workspace_users ua us (JObj items))
               \<and> (JObj items \<in> set ws \<longrightarrow> isl (flatten (JList ws)))))"
proof (intro conjI impI)
  show "access_right (JObj kvs) =
     (case spec_access_right kvs of Some r \<Rightarrow> Inr r | None \<Rightarrow> Inl IndexError)"
    by (rule access_right_spec)
next
  assume "kvs = pre @ (k, v) # post \<and> sublist ''UserAccessRight'' k
        \<and> (\<forall>k' \<in> fst ` set pre. \<not> sublist ''UserAccessRight'' k')"
  then show "spec_access_right kvs = Some v"
    using find_first [of pre "\<lambda>kv. sublist ''UserAccessRight'' (fst kv)" "(k, v)" post]
    by (simp add: spec_access_right_def)
next
  assume "\<forall>k \<in> fst ` set kvs. \<not> sublist ''UserAccessRight'' k"
  then show "spec_access_right kvs = None"
    by (fastforce simp: spec_access_right_def find_None_iff)
next
  assume "\<forall>u \<in> set ulist. spec_access_row oid t u \<noteq> None"
  then show "fill_user_table ua t oid (JList ulist)
             = Inr (ua @ map (\<lambda>u. the (spec_access_row oid t u)) ulist)"
    by (simp add: fill_user_table_def fill_user_table_loop_rows)
next
  assume h: "map_of items ''id'' = Some wid \<and> map_of items ''users'' = Some (JList ulist)
        \<and> (\<forall>u \<in> set ulist. spec_access_row wid ''workspace'' u \<noteq> None)"
  then obtain us' where "process_workspace_users_loop wid ua us ulist
             = Inr (ua @ map (\<lambda>u. the (spec_access_row wid ''workspace'' u)) ulist, us')"
    using process_workspace_users_loop_rows [of ulist wid ua us] by blast
  then show "\<exists>us'. process_workspace_users ua us (JObj items)
                    = Inr (ua @ map (\<lambda>u. the (spec_access_row wid ''workspace'' u)) ulist, us')"
    using h by (simp add: process_workspace_users_def)
next
  assume h: "JObj kvs \<in> set ulist \<and> spec_access_right kvs = None"
  then have bad: "isl (access_right (JObj kvs))"
    by (simp only: access_right_spec) simp
  from h have mem: "JObj kvs \<in> set ulist" by blast
  show "isl (fill_user_table ua t oid (JList ulist))"
    using fill_user_table_loop_aborts [OF mem bad] by (simp add: fill_user_table_def)
  {
    assume listed: "map_of items ''users'' = Some (JList ulist)"
    show "isl (process_workspace_users ua us (JObj items))"
      using process_workspace_users_aborts [OF listed mem bad] .
    {
      assume "JObj items \<in> set ws"
      then show "isl (flatten (JList ws))"
        using flatten_aborts_on_user [OF _ listed mem bad] by blast
    }
  }
qed

text \<open>
  Two user records on the report R1, the second with two matching keys: both rows are
  appended, the second with the right of its first matching key.  With a third record
  that has no matching key the call ends in an error.
\<close>

theorem access_right_discovery_witness:
  "fill_user_table [] ''report'' (JStr ''R1'') (JList two_users)
     = Inr [JList [JStr ''U1'', JStr ''R1'', JStr ''Member'', JStr ''report''],
            JList [JStr ''U2'', JStr ''R1'', JStr ''Viewer'', JStr ''report'']]
   \<and> isl (fill_user_table [] ''report'' (JStr ''R1'') (JList (two_users @ [no_right_user])))"
proof -
  have rows: "map (spec_access_row (JStr ''R1'') ''report'') two_users
      = [Some (JList [JStr ''U1'', JStr ''R1'', JStr ''Member'', JStr ''report'']),
         Some (JList [JStr ''U2'', JStr ''R1'', JStr ''Viewer'', JStr ''report''])]"
    by (simp add: two_users_def spec_access_row_def spec_access_right_def
        str_contains_sublist [symmetric])
  have all: "\<forall>u \<in> set two_users. spec_access_row (JStr ''R1'') ''report'' u \<noteq> None"
    using rows by (auto simp: two_users_def)
  have none: "spec_access_right [(''graphId'', JStr ''U3''), (''displayName'', JStr ''Eve'')] = None"
    by (simp add: spec_access_right_def str_contains_sublist [symmetric])
  note inst = access_right_discovery [of "[(''graphId'', JStr ''U3''), (''displayName'', JStr ''Eve'')]"
      "[]" "''graphId''" "JStr ''U3''" "[(''displayName'', JStr ''Eve'')]" _ "JStr ''R1''"
      "''report''" "[]" "[]" "JStr ''W1''" "[]" "[]"]
  have "fill_user_table [] ''report'' (JStr ''R1'') (JList two_users)
          = Inr ([] @ map (\<lambda>u. the (spec_access_row (JStr ''R1'') ''report'' u)) two_users)"
    using inst [of two_users] all by blast
  then have a: "fill_user_table [] ''report'' (JStr ''R1'') (JList two_users)
     = Inr [JList [JStr ''U1'', JStr ''R1'', JStr ''Member'', JStr ''report''],
            JList [JStr ''U2'', JStr ''R1'', JStr ''Viewer'', JStr ''report'']]"
    using rows by (simp add: two_users_def)
  have b: "isl (fill_user_table [] ''report'' (JStr ''R1'') (JList (two_users @ [no_right_user])))"
    using inst [of "two_users @ [no_right_user]"] none
    by (simp add: no_right_user_def)
  from a b show ?thesis by blast
qed

section \<open>Properties of the silver-to-gold load\<close>

lemma logging_rows_logger_write_log:
  "logging_rows (logger_write_log clk c op k t lm)
     = logging_rows lm @ [make_entry (clk (length (logging_rows lm))) c op k t]"
  by (simp add: logger_write_log_def write_log_def Let_def)

text \<open>The rows the writer logs are no closing rows of a table.\<close>

lemma read_parquet_data_log:
  "filter is_outcome (logging_rows (snd (snd (read_parquet_data service clk fs n st))))
     = filter is_outcome (logging_rows (snd st))"
  by (auto simp: read_parquet_data_def logging_rows_logger_write_log is_outcome_def make_entry_def
      split: prod.splits sum.splits)

lemma write_parquet_data_log:
  "filter is_outcome (logging_rows (snd (snd (write_parquet_data service clk df fs n st))))
     = filter is_outcome (logging_rows (snd st))"
  by (auto simp: write_parquet_data_def logging_rows_logger_write_log is_outcome_def make_entry_def
      split: prod.splits option.splits)

lemma read_gold_and_merge_log:
  "filter is_outcome (logging_rows (snd (snd (read_gold_and_merge service clk client kind name I c st))))
     = filter is_outcome (logging_rows (snd st))"
proof -
  obtain res st' where rd: "read_parquet_data service clk ''gold'' (gold_path kind name) st = (res, st')"
    by (cases "read_parquet_data service clk ''gold'' (gold_path kind name) st") auto
  have keep: "filter is_outcome (logging_rows (snd st')) = filter is_outcome (logging_rows (snd st))"
    using read_parquet_data_log [of service clk "''gold''" "gold_path kind name" st] rd by simp
  show ?thesis
    using rd keep
    by (auto simp: read_gold_and_merge_def logging_rows_logger_write_log is_outcome_def
        make_entry_def split: sum.splits)
qed

lemma table_body_log:
  assumes "table_body service clk today client kind name st = (r, st')"
  shows "case r of
           Some e \<Rightarrow> filter is_outcome (logging_rows (snd st')) = filter is_outcome (logging_rows (snd st))
         | None \<Rightarrow> (\<exists>out. filter is_outcome (logging_rows (snd st'))
                           = filter is_outcome (logging_rows (snd st)) @ [out]
                         \<and> outcome_for name out)"
proof -
  obtain res st1 where rd:
    "read_parquet_data service clk ''silver'' (today @ ''/'' @ client @ ''/'' @ name) st = (res, st1)"
    by (cases "read_parquet_data service clk ''silver'' (today @ ''/'' @ client @ ''/'' @ name) st")
       auto
  have k1: "filter is_outcome (logging_rows (snd st1)) = filter is_outcome (logging_rows (snd st))"
    using read_parquet_data_log
      [of service clk "''silver''" "today @ ''/'' @ client @ ''/'' @ name" st] rd
    by simp
  show ?thesis
  proof (cases res)
    case (Inl e)
    with assms rd k1 show ?thesis by (auto simp: table_body_def)
  next
    case (Inr dataframe)
    obtain df st2 where rg:
      "read_gold_and_merge service clk client kind name dataframe (id_column_of name) st1 = (df, st2)"
      by (cases "read_gold_and_merge service clk client kind name dataframe (id_column_of name) st1")
         auto
    have k2: "filter is_outcome (logging_rows (snd st2)) = filter is_outcome (logging_rows (snd st))"
      using read_gold_and_merge_log [of service clk client kind name dataframe "id_column_of name" st1]
        rg k1
      by simp
    obtain wr st3 where wr: "write_parquet_data service clk df ''gold'' (gold_path kind name) st2 = (wr, st3)"
      by (cases "write_parquet_data service clk df ''gold'' (gold_path kind name) st2") auto
    have k3: "filter is_outcome (logging_rows (snd st3)) = filter is_outcome (logging_rows (snd st))"
      using write_parquet_data_log [of service clk df "''gold''" "gold_path kind name" st2] wr k2
      by simp
    show ?thesis
      using assms rd Inr rg wr k3
      by (cases wr)
         (auto simp: table_body_def Let_def logging_rows_logger_write_log is_outcome_def
            outcome_for_def make_entry_def)
  qed
qed

lemma process_table_log:
  "\<exists>out. filter is_outcome (logging_rows (snd (process_table service clk today client kind name st)))
            = filter is_outcome (logging_rows (snd st)) @ [out]
        \<and> outcome_for name out"
proof -
  obtain r st' where tb: "table_body service clk today client kind name st = (r, st')"
    by (cases "table_body service clk today client kind name st") auto
  show ?thesis
  proof (cases r)
    case None
    then show ?thesis
      using table_body_log [OF tb] tb by (simp add: process_table_def)
  next
    case (Some e)
    then have "filter is_outcome (logging_rows (snd st')) = filter is_outcome (logging_rows (snd st))"
      using table_body_log [OF tb] by simp
    then show ?thesis
      using tb Some
      by (simp add: process_table_def logging_rows_logger_write_log is_outcome_def
          outcome_for_def make_entry_def)
  qed
qed

lemma names_loop_log:
  "\<exists>outs. filter is_outcome (logging_rows (snd (names_loop service clk today client kind names st)))
             = filter is_outcome (logging_rows (snd st)) @ outs
         \<and> list_all2 outcome_for names outs"
proof (induction names arbitrary: st)
  case Nil
  then show ?case by simp
next
  case (Cons name names)
  let ?st1 = "process_table service clk today client kind name st"
  obtain out where out:
    "filter is_outcome (logging_rows (snd ?st1)) = filter is_outcome (logging_rows (snd st)) @ [out]"
    "outcome_for name out"
    using process_table_log [of service clk today client kind name st] by blast
  obtain outs where outs:
    "filter is_outcome (logging_rows (snd (names_loop service clk today client kind names ?st1)))
       = filter is_outcome (logging_rows (snd ?st1)) @ outs"
    "list_all2 outcome_for names outs"
    using Cons.IH [of ?st1] by blast
  have "filter is_outcome (logging_rows (snd (names_loop service clk today client kind (name # names) st)))
          = filter is_outcome (logging_rows (snd st)) @ (out # outs)"
    using out(1) outs(1) by simp
  moreover have "list_all2 outcome_for (name # names) (out # outs)"
    using out(2) outs(2) by simp
  ultimately show ?case by blast
qed

text \<open>
  Whatever the storage service does, every table of every table list is processed: the
  closing rows (ERROR, or \<^verbatim>\<open>Successfully processed\<close>) that the load adds to the log are one
  per table, in the order of the lists, each for its table.
\<close>

lemma load_attempts_every_table:
  "\<exists>outs. filter is_outcome (logging_rows (snd (kinds_loop service clk today client tables st)))
             = filter is_outcome (logging_rows (snd st)) @ outs
         \<and> list_all2 outcome_for (concat (map snd tables)) outs"
proof (induction tables arbitrary: st)
  case Nil
  then show ?case by simp
next
  case (Cons kt tables)
  obtain kind names where kt: "kt = (kind, names)" by (cases kt) auto
  let ?st1 = "names_loop service clk today client kind names st"
  obtain outs1 where o1:
    "filter is_outcome (logging_rows (snd ?st1)) = filter is_outcome (logging_rows (snd st)) @ outs1"
    "list_all2 outcome_for names outs1"
    using names_loop_log [of service clk today client kind names st] by blast
  obtain outs2 where o2:
    "filter is_outcome (logging_rows (snd (kinds_loop service clk today client tables ?st1)))
       = filter is_outcome (logging_rows (snd ?st1)) @ outs2"
    "list_all2 outcome_for (concat (map snd tables)) outs2"
    using Cons.IH [of ?st1] by blast
  have "filter is_outcome (logging_rows (snd (kinds_loop service clk today client (kt # tables) st)))
          = filter is_outcome (logging_rows (snd st)) @ (outs1 @ outs2)"
    using o1(1) o2(1) by (simp add: kt)
  moreover have "list_all2 outcome_for (concat (map snd (kt # tables))) (outs1 @ outs2)"
    using o1(2) o2(2) by (simp add: kt list_all2_appendI)
  ultimately show ?case by blast
qed

text \<open>
  C7.  The gold table \<open>dimensions/dim_reports\<close> exists with the ids 1 and 2, and today's
  silver table \<open>reports\<close> has no column \<^verbatim>\<open>id\<close>, so the merge raises KeyError.  The inner
  \<^verbatim>\<open>except\<close> catches it: the load logs \<^verbatim>\<open>Creating new table: reports\<close> at INFO, writes the
  silver table over the gold table, and logs success.  No row of the table's iteration
  has the level ERROR, in the rows of the load or in those of the writer (which passes
  its level in the position of \<^verbatim>\<open>operation\<close>).
\<close>

theorem merge_error_logged_as_info:
  "merge_new_rows (id_table [1, 2]) names_table (id_column_of ''reports'') = Inl (KeyError ''id'')
   \<and> map log_kind
       (logging_rows (snd (process_table lake_service noon ''03112026'' ''acme''
                             ''dimensions'' ''reports'' (reports_lake, LoggingManager_init))))
     = [''Read data'', ''Read data'', ''INFO'', ''Write data'', ''INFO'']
   \<and> map log_operation
       (logging_rows (snd (process_table lake_service noon ''03112026'' ''acme''
                             ''dimensions'' ''reports'' (reports_lake, LoggingManager_init))))
     = [''DEBUG'', ''DEBUG'', ''powerbi_load'', ''DEBUG'', ''powerbi_load'']
   \<and> map log_text
       (logging_rows (snd (process_table lake_service noon ''03112026'' ''acme''
                             ''dimensions'' ''reports'' (reports_lake, LoggingManager_init))))
     = [''Parquet data read from 03112026/acme/reports in silver'',
        ''Parquet data read from dimensions/dim_reports in gold'',
        ''Creating new table: reports'',
        ''Parquet data written to dimensions/dim_reports in gold'',
        ''Successfully processed reports table'']
   \<and> fst (process_table lake_service noon ''03112026'' ''acme''
            ''dimensions'' ''reports'' (reports_lake, LoggingManager_init))
         (''gold'', ''dimensions/dim_reports'')
     = Some names_table"
proof -
  have merge: "merge_new_rows (id_table [1, 2]) names_table (Name ''id'') = Inl (KeyError ''id'')"
    by (simp add: merge_new_rows_def empty_df_def getitem_def labels_def id_table_def
        names_table_def)
  have idc: "id_column_of ''reports'' = Name ''id''"
    by (simp add: id_column_of_def id_columns_def)
  have run: "process_table lake_service noon ''03112026'' ''acme'' ''dimensions'' ''reports''
               (reports_lake, LoggingManager_init)
      = (reports_lake((''gold'', ''dimensions/dim_reports'') \<mapsto> names_table),
         logger_write_log noon ''acme'' ''powerbi_load'' ''INFO'' ''Successfully processed reports table''
          (logger_write_log noon ''datalake_writer'' ''DEBUG'' ''Write data''
             ''Parquet data written to dimensions/dim_reports in gold''
           (logger_write_log noon ''acme'' ''powerbi_load'' ''INFO'' ''Creating new table: reports''
            (logger_write_log noon ''datalake_writer'' ''DEBUG'' ''Read data''
               ''Parquet data read from dimensions/dim_reports in gold''
             (logger_write_log noon ''datalake_writer'' ''DEBUG'' ''Read data''
                ''Parquet data read from 03112026/acme/reports in silver''
                LoggingManager_init)))))"
    by (simp add: process_table_def table_body_def read_gold_and_merge_def read_parquet_data_def
        write_parquet_data_def lake_service_def reports_lake_def gold_path_def idc merge)
  show ?thesis
    unfolding run idc
    by (simp add: merge logging_rows_logger_write_log LoggingManager_init_def make_entry_def)
qed

section \<open>Properties of the workspace listing\<close>

lemma get_workspaces_effect:
  "get_workspaces depth sv clk client top_n skip data st = (res, st') \<Longrightarrow>
     heap st' = (heap st)(data := heap st data @ fetched depth sv top_n skip)
     \<and> (\<forall>r. res = Inr r \<longrightarrow> r = data)"
proof (induction depth arbitrary: skip st res st')
  case 0
  then show ?case by auto
next
  case (Suc depth)
  show ?case
  proof (cases "sv top_n skip")
    case (Inl e)
    with Suc.prems show ?thesis by auto
  next
    case (Inr result)
    define st2 where "st2 = st\<lparr>heap := (heap st)(data := heap st data @ result),
        logger := logger_write_log clk client ''Get Workspaces'' ''DEBUG''
                        (''Retrieved '' @ str_of_nat (length result) @ '' workspaces (skip=''
                           @ str_of_int skip @ ''). Total workspaces: ''
                           @ str_of_nat (length (heap st data @ result)))
                        (logger st)\<rparr>"
    show ?thesis
    proof (cases "int (length result) = top_n")
      case False
      with Suc.prems Inr show ?thesis by (auto simp: Let_def)
    next
      case True
      obtain res2 st3 where rec:
        "get_workspaces depth sv clk client top_n (skip + top_n) data st2 = (res2, st3)"
        by (cases "get_workspaces depth sv clk client top_n (skip + top_n) data st2") auto
      have ih: "heap st3 = (heap st2)(data := heap st2 data @ fetched depth sv top_n (skip + top_n))
                \<and> (\<forall>r. res2 = Inr r \<longrightarrow> r = data)"
        using Suc.IH [OF rec] .
      have "heap st' = heap st3 \<and> (\<forall>r. res = Inr r \<longrightarrow> res2 = Inr r)"
        using Suc.prems Inr True rec
        by (cases res2) (auto simp: Let_def st2_def)
      then show ?thesis
        using ih Inr True by (auto simp: st2_def)
    qed
  qed
qed

text \<open>A page shorter than \<open>top_n\<close> ends the listing: the call returns the accumulator.\<close>

lemma get_workspaces_returns:
  assumes "sv top_n skip = Inr result" and "int (length result) \<noteq> top_n"
  shows "fst (get_workspaces (Suc depth) sv clk client top_n skip data st) = Inr data"
  using assms by (simp add: Let_def)

text \<open>
  C8.  Two successive calls of \<^verbatim>\<open>get_workspaces()\<close> without the \<^verbatim>\<open>data\<close> argument, both
  returning: each returns the one default list object.  After the second call that list
  is the list the first call returned followed by the rows the second call fetched, so
  the first result is a prefix of the second, and the two results differ as soon as the
  second call fetches a row, the requests and the answers of the service being the same.
\<close>

theorem get_workspaces_shared_default:
  assumes "get_workspaces_default d1 sv1 clk1 client1 st0 = (Inr r1, st1)"
    and "get_workspaces_default d2 sv2 clk2 client2 st1 = (Inr r2, st2)"
  shows "r1 = default_data \<and> r2 = default_data
       \<and> heap st1 r1 = heap st0 default_data @ fetched d1 sv1 500 0
       \<and> heap st2 r2 = heap st1 r1 @ fetched d2 sv2 500 0
       \<and> prefix (heap st1 r1) (heap st2 r2)
       \<and> (fetched d2 sv2 500 0 \<noteq> [] \<longrightarrow> heap st2 r2 \<noteq> heap st1 r1)"
proof -
  have a: "heap st1 = (heap st0)(default_data := heap st0 default_data @ fetched d1 sv1 500 0)"
    "r1 = default_data"
    using get_workspaces_effect [OF assms(1) [unfolded get_workspaces_default_def]] by auto
  have b: "heap st2 = (heap st1)(default_data := heap st1 default_data @ fetched d2 sv2 500 0)"
    "r2 = default_data"
    using get_workspaces_effect [OF assms(2) [unfolded get_workspaces_default_def]] by auto
  show ?thesis
    using a b by simp
qed

text \<open>
  A service with one workspace, asked twice by a fresh process: the first call returns
  one row, the second call returns two.
\<close>

theorem get_workspaces_shared_default_witness:
  "heap (snd (get_workspaces_default (Suc 0) one_page noon ''acme'' fresh_api)) default_data
     = [JObj [(''id'', JStr ''W1'')]]
   \<and> heap (snd (get_workspaces_default (Suc 0) one_page noon ''acme''
               (snd (get_workspaces_default (Suc 0) one_page noon ''acme'' fresh_api)))) default_data
     = [JObj [(''id'', JStr ''W1'')], JObj [(''id'', JStr ''W1'')]]"
proof -
  let ?st1 = "snd (get_workspaces_default (Suc 0) one_page noon ''acme'' fresh_api)"
  let ?st2 = "snd (get_workspaces_default (Suc 0) one_page noon ''acme'' ?st1)"
  have c1: "get_workspaces_default (Suc 0) one_page noon ''acme'' fresh_api = (Inr default_data, ?st1)"
    by (simp add: get_workspaces_default_def one_page_def Let_def)
  have c2: "get_workspaces_default (Suc 0) one_page noon ''acme'' ?st1 = (Inr default_data, ?st2)"
    by (simp add: get_workspaces_default_def one_page_def Let_def)
  have f: "fetched (Suc 0) one_page 500 0 = [JObj [(''id'', JStr ''W1'')]]"
    by (simp add: one_page_def)
  show ?thesis
    using get_workspaces_shared_default [OF c1 c2] f
    by (simp add: fresh_api_def)
qed

end
